theory Spec2Isabelle
  imports Main "HOL-Library.Monad_Syntax"
begin

section \<open>Python values used by the simulator\<close>

text \<open>
  Python integers are unbounded (\<open>int\<close>).  A Python list is a HOL list; subscripting
  follows Python: a negative index counts from the end, and an index outside the list
  raises \<open>IndexError\<close>.  A raised exception is the value \<open>None\<close> of the option monad:
  the simulator has no handler below the top level of \<open>run_simulation\<close>, so the kind of
  the exception is never inspected.
\<close>

definition py_index :: "'a list \<Rightarrow> int \<Rightarrow> nat option" where
  "py_index xs i =
     (let n = int (length xs); j = (if i < 0 then n + i else i)
      in if 0 \<le> j \<and> j < n then Some (nat j) else None)"

definition py_get :: "'a list \<Rightarrow> int \<Rightarrow> 'a option" where
  "py_get xs i = (case py_index xs i of None \<Rightarrow> None | Some j \<Rightarrow> Some (xs ! j))"

definition py_set :: "'a list \<Rightarrow> int \<Rightarrow> 'a \<Rightarrow> 'a list option" where
  "py_set xs i v = (case py_index xs i of None \<Rightarrow> None | Some j \<Rightarrow> Some (xs[j := v]))"

text \<open>\<open>range(n)\<close> for an integer \<open>n\<close>; it is empty when \<open>n \<le> 0\<close>.\<close>

definition py_range :: "int \<Rightarrow> int list" where
  "py_range n = map int [0..<nat n]"

text \<open>\<open>sys.maxsize\<close> of a 64-bit CPython.\<close>

definition sys_maxsize :: int where
  "sys_maxsize = 9223372036854775807"

text \<open>
  \<open>access_type.upper() == "WRITE"\<close>: the argument has five characters, each the
  upper-case or the lower-case form of the letter at its place.
\<close>

definition is_write :: "string \<Rightarrow> bool" where
  "is_write a =
     (case a of
        [c1, c2, c3, c4, c5] \<Rightarrow>
          (c1 = CHR ''W'' \<or> c1 = CHR ''w'') \<and> (c2 = CHR ''R'' \<or> c2 = CHR ''r'') \<and>
          (c3 = CHR ''I'' \<or> c3 = CHR ''i'') \<and> (c4 = CHR ''T'' \<or> c4 = CHR ''t'') \<and>
          (c5 = CHR ''E'' \<or> c5 = CHR ''e'')
      | _ \<Rightarrow> False)"

section \<open>Data structures (data_structures.py)\<close>

text \<open>
  \<open>PageReplacementAlgorithm\<close>.  The enumeration of python/core has the members LRU, FIFO
  and LFU; the one used by backend/core/mmu.py has MRU as well.
\<close>

datatype page_replacement_algorithm = LRU | MRU | FIFO | LFU

text \<open>
  \<open>PTEntry\<close>.  The fields \<open>read_only\<close> and \<open>shared\<close> are the ones backend/core/mmu.py
  reads and writes; python/core never touches them.  A fresh entry is
  \<open>PTEntry()\<close>: frame -1, invalid, time 0, frequency 0, writable, private.
\<close>

record pt_entry =
  frame :: int
  valid :: bool
  time :: int
  frequency :: int
  read_only :: bool
  shared :: bool

definition PTEntry :: pt_entry where
  "PTEntry = \<lparr>frame = -1, valid = False, time = 0, frequency = 0,
              read_only = False, shared = False\<rparr>"

text \<open>\<open>Process\<close>, the process control block.\<close>

record process =
  pid :: int
  m :: int
  allocount :: int
  usecount :: int
  reference_string :: "int list"
  current_index :: int
  completed :: bool

text \<open>\<open>TLBEntry\<close>; the fields carry the prefix \<open>tlb_\<close> where the name is taken.\<close>

record tlb_entry =
  tlb_pid :: int
  pageno :: int
  frameno :: int
  tlb_time :: int
  tlb_valid :: bool

definition TLBEntry :: tlb_entry where
  "TLBEntry = \<lparr>tlb_pid = -1, pageno = -1, frameno = -1, tlb_time = 0, tlb_valid = False\<rparr>"

text \<open>
  \<open>FreeFrameList\<close>: \<open>allocate\<close> pops the last frame (Python's \<open>None\<close> on an empty
  list), \<open>deallocate\<close> appends.
\<close>

definition allocate :: "int list \<Rightarrow> int option \<times> int list" where
  "allocate frames = (if frames \<noteq> [] then (Some (last frames), butlast frames) else (None, frames))"

definition deallocate :: "int list \<Rightarrow> int \<Rightarrow> int list" where
  "deallocate frames fr = frames @ [fr]"

text \<open>The event kinds, the strings \<open>"tlb_hit"\<close>, \<open>"page_hit"\<close>, ... of the source.\<close>

datatype event =
  TlbHit | PageHit | PageFault | InvalidReference | ProtectionFault
  | PageFaultHandled | ProcessComplete

section \<open>The MMU (mmu.py)\<close>

text \<open>
  The state of an \<open>MMU\<close> object.  \<open>processes\<close> is the list of process control blocks
  that \<open>set_processes\<close> stores: the very list the scheduler and the implementor hold, so
  the model keeps it here only.  \<open>page_fault_counts\<close> is a dictionary whose keys are
  \<open>0 .. k-1\<close> for its whole life (a missing key raises before anything is stored); it
  is the list of its values.  The sizes \<open>k\<close>, \<open>m\<close>, \<open>f\<close>, \<open>s\<close> are the lengths of the
  lists built from them.
\<close>

record mmu =
  algorithm :: page_replacement_algorithm
  enable_shared_memory :: bool
  shared_page_numbers :: "int set"
  page_table :: "pt_entry list list"
  tlb :: "tlb_entry list"
  free_frames :: "int list"
  physical_memory :: "int list"
  timestamp :: int
  page_fault_counts :: "int list"
  tlb_hit_count :: int
  page_hit_count :: int
  processes :: "process list"

text \<open>\<open>MMU.__init__\<close> followed by \<open>set_processes\<close>.\<close>

definition MMU ::
  "nat \<Rightarrow> nat \<Rightarrow> nat \<Rightarrow> nat \<Rightarrow> page_replacement_algorithm \<Rightarrow> bool \<Rightarrow> process list \<Rightarrow> mmu" where
  "MMU num_processes max_pages num_frames tlb_size alg sharing procs =
     \<lparr>algorithm = alg,
      enable_shared_memory = sharing,
      shared_page_numbers = (if sharing then {0} else {}),
      page_table = replicate num_processes (replicate max_pages PTEntry),
      tlb = replicate tlb_size TLBEntry,
      free_frames = rev (map int [0..<num_frames]),
      physical_memory = replicate num_frames (-1),
      timestamp = 0,
      page_fault_counts = replicate num_processes 0,
      tlb_hit_count = 0,
      page_hit_count = 0,
      processes = procs\<rparr>"

text \<open>\<open>self.page_table[process_id][page_number]\<close>, read and written.\<close>

definition get_entry :: "pt_entry list list \<Rightarrow> int \<Rightarrow> int \<Rightarrow> pt_entry option" where
  "get_entry pt p n = (case py_get pt p of None \<Rightarrow> None | Some row \<Rightarrow> py_get row n)"

definition set_entry :: "pt_entry list list \<Rightarrow> int \<Rightarrow> int \<Rightarrow> pt_entry \<Rightarrow> pt_entry list list option" where
  "set_entry pt p n e =
     (case py_get pt p of
        None \<Rightarrow> None
      | Some row \<Rightarrow> (case py_set row n e of None \<Rightarrow> None | Some row' \<Rightarrow> py_set pt p row'))"

text \<open>\<open>self.page_fault_counts[process_id] += 1\<close>; \<open>KeyError\<close> for a key outside \<open>0 .. k-1\<close>.\<close>

definition count_fault :: "int list \<Rightarrow> int \<Rightarrow> int list option" where
  "count_fault cnts p =
     (if 0 \<le> p \<and> p < int (length cnts) then Some (cnts[nat p := cnts ! nat p + 1]) else None)"

subsection \<open>The TLB\<close>

definition tlb_match :: "tlb_entry \<Rightarrow> int \<Rightarrow> int \<Rightarrow> bool" where
  "tlb_match e p n \<longleftrightarrow> tlb_valid e \<and> tlb_pid e = p \<and> pageno e = n"

fun check_tlb :: "tlb_entry list \<Rightarrow> int \<Rightarrow> int \<Rightarrow> int \<times> bool" where
  "check_tlb [] p n = (-1, False)"
| "check_tlb (e # es) p n =
     (if tlb_match e p n then (frameno e, True) else check_tlb es p n)"

fun update_tlb_time :: "tlb_entry list \<Rightarrow> int \<Rightarrow> int \<Rightarrow> int \<Rightarrow> tlb_entry list" where
  "update_tlb_time [] p n ts = []"
| "update_tlb_time (e # es) p n ts =
     (if tlb_match e p n then e\<lparr>tlb_time := ts\<rparr> # es else e # update_tlb_time es p n ts)"

text \<open>
  \<open>_update_tlb\<close> is three loops.  The first two return from the function at the entry
  they change; \<open>None\<close> says that the loop ran to its end.
\<close>

fun tlb_refresh :: "tlb_entry list \<Rightarrow> int \<Rightarrow> int \<Rightarrow> int \<Rightarrow> int \<Rightarrow> tlb_entry list option" where
  "tlb_refresh [] p n fr ts = None"
| "tlb_refresh (e # es) p n fr ts =
     (if tlb_match e p n then Some (e\<lparr>frameno := fr, tlb_time := ts\<rparr> # es)
      else (case tlb_refresh es p n fr ts of None \<Rightarrow> None | Some es' \<Rightarrow> Some (e # es')))"

fun tlb_fill :: "tlb_entry list \<Rightarrow> int \<Rightarrow> int \<Rightarrow> int \<Rightarrow> int \<Rightarrow> tlb_entry list option" where
  "tlb_fill [] p n fr ts = None"
| "tlb_fill (e # es) p n fr ts =
     (if \<not> tlb_valid e
      then Some (e\<lparr>tlb_valid := True, tlb_pid := p, pageno := n, frameno := fr, tlb_time := ts\<rparr> # es)
      else (case tlb_fill es p n fr ts of None \<Rightarrow> None | Some es' \<Rightarrow> Some (e # es')))"

fun min_time :: "tlb_entry list \<Rightarrow> int" where
  "min_time [] = 0"
| "min_time [e] = tlb_time e"
| "min_time (e # es) = min (tlb_time e) (min_time es)"

fun tlb_replace :: "tlb_entry list \<Rightarrow> int \<Rightarrow> int \<Rightarrow> int \<Rightarrow> int \<Rightarrow> int \<Rightarrow> tlb_entry list" where
  "tlb_replace [] mt p n fr ts = []"
| "tlb_replace (e # es) mt p n fr ts =
     (if tlb_time e = mt
      then e\<lparr>tlb_pid := p, pageno := n, frameno := fr, tlb_time := ts\<rparr> # es
      else e # tlb_replace es mt p n fr ts)"

text \<open>
  \<open>_update_tlb\<close>; with an empty TLB the call \<open>min(...)\<close> of the third part raises
  \<open>ValueError\<close>.
\<close>

definition update_tlb :: "tlb_entry list \<Rightarrow> int \<Rightarrow> int \<Rightarrow> int \<Rightarrow> int \<Rightarrow> tlb_entry list option" where
  "update_tlb es p n fr ts =
     (case tlb_refresh es p n fr ts of
        Some es' \<Rightarrow> Some es'
      | None \<Rightarrow>
          (case tlb_fill es p n fr ts of
             Some es' \<Rightarrow> Some es'
           | None \<Rightarrow> if es = [] then None else Some (tlb_replace es (min_time es) p n fr ts)))"

text \<open>The loop that invalidates the TLB entries of one page of one process.\<close>

definition tlb_invalidate_page :: "tlb_entry list \<Rightarrow> int \<Rightarrow> int \<Rightarrow> tlb_entry list" where
  "tlb_invalidate_page es p n = map (\<lambda>e. if tlb_match e p n then e\<lparr>tlb_valid := False\<rparr> else e) es"

text \<open>The loop that invalidates all TLB entries of one process.\<close>

definition tlb_invalidate_process :: "tlb_entry list \<Rightarrow> int \<Rightarrow> tlb_entry list" where
  "tlb_invalidate_process es p =
     map (\<lambda>e. if tlb_valid e \<and> tlb_pid e = p then e\<lparr>tlb_valid := False\<rparr> else e) es"

subsection \<open>Eviction\<close>

text \<open>
  The four functions \<open>_evict_lru\<close>, \<open>_evict_mru\<close>, \<open>_evict_fifo\<close> and \<open>_evict_lfu\<close> are
  one text up to the field they compare (\<open>key\<close>), the comparison (\<open>better\<close>) and the
  start value of the running optimum (\<open>init\<close>).  \<open>scan_victim\<close> is their loop over
  \<open>range(self.processes[process_id].m)\<close>, with the running optimum and
  \<open>victim_page\<close> as accumulators; \<open>evict_by\<close> is the whole function.
\<close>

fun scan_victim ::
  "(pt_entry \<Rightarrow> int) \<Rightarrow> (int \<Rightarrow> int \<Rightarrow> bool) \<Rightarrow> pt_entry list \<Rightarrow> int list \<Rightarrow> int \<Rightarrow> int
     \<Rightarrow> (int \<times> int) option" where
  "scan_victim key better row [] best victim_page = Some (best, victim_page)"
| "scan_victim key better row (page_num # rest) best victim_page =
     (case py_get row page_num of
        None \<Rightarrow> None
      | Some e \<Rightarrow>
          if valid e \<and> better (key e) best
          then scan_victim key better row rest (key e) page_num
          else scan_victim key better row rest best victim_page)"

definition evict_by ::
  "(pt_entry \<Rightarrow> int) \<Rightarrow> (int \<Rightarrow> int \<Rightarrow> bool) \<Rightarrow> int \<Rightarrow> mmu \<Rightarrow> int \<Rightarrow> (int \<times> mmu) option" where
  "evict_by key better init st process_id =
     do {
       pr \<leftarrow> py_get (processes st) process_id;
       row \<leftarrow> py_get (page_table st) process_id;
       (best, victim_page) \<leftarrow> scan_victim key better row (py_range (m pr)) init (-1);
       e \<leftarrow> py_get row victim_page;
       pt' \<leftarrow> set_entry (page_table st) process_id victim_page (e\<lparr>valid := False\<rparr>);
       Some (frame e,
             st\<lparr>page_table := pt',
                tlb := tlb_invalidate_page (tlb st) process_id victim_page\<rparr>)
     }"

definition evict_lru :: "mmu \<Rightarrow> int \<Rightarrow> (int \<times> mmu) option" where
  "evict_lru = evict_by time (\<lambda>a b. a < b) sys_maxsize"

definition evict_mru :: "mmu \<Rightarrow> int \<Rightarrow> (int \<times> mmu) option" where
  "evict_mru = evict_by time (\<lambda>a b. a > b) (-1)"

definition evict_fifo :: "mmu \<Rightarrow> int \<Rightarrow> (int \<times> mmu) option" where
  "evict_fifo = evict_by frame (\<lambda>a b. a < b) sys_maxsize"

definition evict_lfu :: "mmu \<Rightarrow> int \<Rightarrow> (int \<times> mmu) option" where
  "evict_lfu = evict_by frequency (\<lambda>a b. a < b) sys_maxsize"

text \<open>\<open>_evict_page\<close> of backend/core/mmu.py.\<close>

definition evict_page :: "mmu \<Rightarrow> int \<Rightarrow> (int \<times> mmu) option" where
  "evict_page st process_id =
     (case algorithm st of
        LRU \<Rightarrow> evict_lru st process_id
      | MRU \<Rightarrow> evict_mru st process_id
      | FIFO \<Rightarrow> evict_fifo st process_id
      | LFU \<Rightarrow> evict_lfu st process_id)"

text \<open>
  \<open>_evict_page\<close> of python/core/mmu.py: no branch for MRU, which is not a member of its
  enumeration; anything that is not LRU, FIFO or LFU takes the final \<open>else\<close>.
\<close>

definition evict_page_basic :: "mmu \<Rightarrow> int \<Rightarrow> (int \<times> mmu) option" where
  "evict_page_basic st process_id =
     (if algorithm st = LRU then evict_lru st process_id
      else if algorithm st = FIFO then evict_fifo st process_id
      else if algorithm st = LFU then evict_lfu st process_id
      else evict_lru st process_id)"

subsection \<open>Resolving a reference\<close>

text \<open>
  \<open>handle_page_request\<close> of backend/core/mmu.py.  The result is the triple of the
  source without its message: frame number or sentinel, event kind, and the state
  after the call.
\<close>

definition handle_page_request ::
  "mmu \<Rightarrow> int \<Rightarrow> int \<Rightarrow> string \<Rightarrow> (int \<times> event \<times> mmu) option" where
  "handle_page_request st0 process_id page_number access_type =
     (let st = st0\<lparr>timestamp := timestamp st0 + 1\<rparr> in
      do {
        pr \<leftarrow> py_get (processes st) process_id;
        if page_number < 0 \<or> page_number \<ge> m pr
        then Some (-2, InvalidReference, st)
        else do {
          let (frame_number_tlb, tlb_hit) = check_tlb (tlb st) process_id page_number;
          e \<leftarrow> get_entry (page_table st) process_id page_number;
          if valid e
          then
            if is_write access_type \<and> read_only e
            then Some (-1, ProtectionFault, st)
            else do {
              pt' \<leftarrow> set_entry (page_table st) process_id page_number
                       (e\<lparr>time := timestamp st, frequency := frequency e + 1\<rparr>);
              if tlb_hit
              then Some (frame e, TlbHit,
                         st\<lparr>page_table := pt',
                            tlb_hit_count := tlb_hit_count st + 1,
                            tlb := update_tlb_time (tlb st) process_id page_number (timestamp st)\<rparr>)
              else do {
                tlb' \<leftarrow> update_tlb (tlb st) process_id page_number (frame e) (timestamp st);
                Some (frame e, PageHit,
                      st\<lparr>page_table := pt',
                         page_hit_count := page_hit_count st + 1,
                         tlb := tlb'\<rparr>)
              }
            }
          else do {
            cnts \<leftarrow> count_fault (page_fault_counts st) process_id;
            Some (-1, PageFault, st\<lparr>page_fault_counts := cnts\<rparr>)
          }
        }
      })"

text \<open>
  \<open>handle_page_request\<close> of python/core/mmu.py: the TLB is looked up first, and a TLB
  hit returns at once with the frame number the TLB holds.
\<close>

definition handle_page_request_basic ::
  "mmu \<Rightarrow> int \<Rightarrow> int \<Rightarrow> (int \<times> event \<times> mmu) option" where
  "handle_page_request_basic st0 process_id page_number =
     (let st = st0\<lparr>timestamp := timestamp st0 + 1\<rparr> in
      do {
        pr \<leftarrow> py_get (processes st) process_id;
        if page_number < 0 \<or> page_number \<ge> m pr
        then Some (-2, InvalidReference, st)
        else
          let (frame_number, tlb_hit) = check_tlb (tlb st) process_id page_number in
          if tlb_hit
          then Some (frame_number, TlbHit,
                     st\<lparr>tlb_hit_count := tlb_hit_count st + 1,
                        tlb := update_tlb_time (tlb st) process_id page_number (timestamp st)\<rparr>)
          else do {
            e \<leftarrow> get_entry (page_table st) process_id page_number;
            if valid e
            then do {
              pt' \<leftarrow> set_entry (page_table st) process_id page_number
                       (e\<lparr>time := timestamp st, frequency := frequency e + 1\<rparr>);
              tlb' \<leftarrow> update_tlb (tlb st) process_id page_number (frame e) (timestamp st);
              Some (frame e, PageHit,
                    st\<lparr>page_hit_count := page_hit_count st + 1,
                       page_table := pt',
                       tlb := tlb'\<rparr>)
            }
            else do {
              cnts \<leftarrow> count_fault (page_fault_counts st) process_id;
              Some (-1, PageFault, st\<lparr>page_fault_counts := cnts\<rparr>)
            }
          }
      })"

subsection \<open>Servicing a page fault\<close>

text \<open>
  The loop \<open>for other_pid, other_process in enumerate(self.processes)\<close> of the sharing
  branch, up to the first other process that holds the page.  \<open>None\<close>: a subscript
  raised; \<open>Some None\<close>: the loop ran to its end; \<open>Some (Some other_pid)\<close>: found.
\<close>

fun find_sharer ::
  "pt_entry list list \<Rightarrow> (int \<times> process) list \<Rightarrow> int \<Rightarrow> int \<Rightarrow> int option option" where
  "find_sharer pt [] process_id page_number = Some None"
| "find_sharer pt ((other_pid, other_process) # rest) process_id page_number =
     (if other_pid = process_id then find_sharer pt rest process_id page_number
      else if page_number < m other_process
      then (case get_entry pt other_pid page_number of
              None \<Rightarrow> None
            | Some other_entry \<Rightarrow>
                if valid other_entry then Some (Some other_pid)
                else find_sharer pt rest process_id page_number)
      else find_sharer pt rest process_id page_number)"

definition enumerate :: "'a list \<Rightarrow> (int \<times> 'a) list" where
  "enumerate xs = zip (map int [0..<length xs]) xs"

text \<open>
  The part of \<open>handle_page_fault\<close> after the sharing branch, in backend/core/mmu.py:
  evict or allocate, install a private writable entry, record the owner of the frame,
  update the TLB.
\<close>

definition allocate_and_install :: "mmu \<Rightarrow> int \<Rightarrow> int \<Rightarrow> (int \<times> mmu) option" where
  "allocate_and_install st process_id page_number =
     do {
       pr \<leftarrow> py_get (processes st) process_id;
       (frame_number, st1) \<leftarrow>
         (if free_frames st = [] \<or> usecount pr \<ge> allocount pr
          then evict_page st process_id
          else (case allocate (free_frames st) of
                  (None, _) \<Rightarrow> None
                | (Some fr, frames') \<Rightarrow>
                    do {
                      ps' \<leftarrow> py_set (processes st) process_id (pr\<lparr>usecount := usecount pr + 1\<rparr>);
                      Some (fr, st\<lparr>free_frames := frames', processes := ps'\<rparr>)
                    }));
       e \<leftarrow> get_entry (page_table st1) process_id page_number;
       pt' \<leftarrow> set_entry (page_table st1) process_id page_number
                (e\<lparr>frame := frame_number, valid := True, time := timestamp st1, frequency := 1,
                   read_only := False, shared := False\<rparr>);
       pm' \<leftarrow> py_set (physical_memory st1) frame_number process_id;
       tlb' \<leftarrow> update_tlb (tlb st1) process_id page_number frame_number (timestamp st1);
       Some (frame_number, st1\<lparr>page_table := pt', physical_memory := pm', tlb := tlb'\<rparr>)
     }"

text \<open>
  The sharing branch of \<open>handle_page_fault\<close>, once \<open>other_pid\<close> is found.  The entry of
  the other process is read again after the first write, as the source writes through
  two references that may be one object.
\<close>

definition install_shared :: "mmu \<Rightarrow> int \<Rightarrow> int \<Rightarrow> int \<Rightarrow> (int \<times> mmu) option" where
  "install_shared st process_id page_number other_pid =
     do {
       other_entry \<leftarrow> get_entry (page_table st) other_pid page_number;
       let frame_number = frame other_entry;
       e \<leftarrow> get_entry (page_table st) process_id page_number;
       pt1 \<leftarrow> set_entry (page_table st) process_id page_number
                (e\<lparr>frame := frame_number, valid := True, time := timestamp st, frequency := 1,
                   read_only := True, shared := True\<rparr>);
       other_entry' \<leftarrow> get_entry pt1 other_pid page_number;
       pt2 \<leftarrow> set_entry pt1 other_pid page_number (other_entry'\<lparr>read_only := True, shared := True\<rparr>);
       tlb' \<leftarrow> update_tlb (tlb st) process_id page_number frame_number (timestamp st);
       Some (frame_number, st\<lparr>page_table := pt2, tlb := tlb'\<rparr>)
     }"

text \<open>\<open>handle_page_fault\<close> of backend/core/mmu.py.\<close>

definition handle_page_fault :: "mmu \<Rightarrow> int \<Rightarrow> int \<Rightarrow> (int \<times> mmu) option" where
  "handle_page_fault st process_id page_number =
     do {
       pr \<leftarrow> py_get (processes st) process_id;
       if enable_shared_memory st \<and> page_number \<in> shared_page_numbers st
       then do {
         found \<leftarrow> find_sharer (page_table st) (enumerate (processes st)) process_id page_number;
         (case found of
            Some other_pid \<Rightarrow> install_shared st process_id page_number other_pid
          | None \<Rightarrow> allocate_and_install st process_id page_number)
       }
       else allocate_and_install st process_id page_number
     }"

text \<open>
  \<open>handle_page_fault\<close> of python/core/mmu.py: no sharing branch, and the entry has no
  protection fields to reset.
\<close>

definition handle_page_fault_basic :: "mmu \<Rightarrow> int \<Rightarrow> int \<Rightarrow> (int \<times> mmu) option" where
  "handle_page_fault_basic st process_id page_number =
     do {
       pr \<leftarrow> py_get (processes st) process_id;
       (frame_number, st1) \<leftarrow>
         (if free_frames st = [] \<or> usecount pr \<ge> allocount pr
          then evict_page_basic st process_id
          else (case allocate (free_frames st) of
                  (None, _) \<Rightarrow> None
                | (Some fr, frames') \<Rightarrow>
                    do {
                      ps' \<leftarrow> py_set (processes st) process_id (pr\<lparr>usecount := usecount pr + 1\<rparr>);
                      Some (fr, st\<lparr>free_frames := frames', processes := ps'\<rparr>)
                    }));
       e \<leftarrow> get_entry (page_table st1) process_id page_number;
       pt' \<leftarrow> set_entry (page_table st1) process_id page_number
                (e\<lparr>frame := frame_number, valid := True, time := timestamp st1, frequency := 1\<rparr>);
       pm' \<leftarrow> py_set (physical_memory st1) frame_number process_id;
       tlb' \<leftarrow> update_tlb (tlb st1) process_id page_number frame_number (timestamp st1);
       Some (frame_number, st1\<lparr>page_table := pt', physical_memory := pm', tlb := tlb'\<rparr>)
     }"

subsection \<open>Releasing the frames of a process\<close>

text \<open>The loop of \<open>free_process_frames\<close> over \<open>range(self.processes[process_id].m)\<close>.\<close>

fun free_loop :: "int \<Rightarrow> int list \<Rightarrow> mmu \<Rightarrow> mmu option" where
  "free_loop process_id [] st = Some st"
| "free_loop process_id (page_num # rest) st =
     (case get_entry (page_table st) process_id page_num of
        None \<Rightarrow> None
      | Some e \<Rightarrow>
          if valid e
          then (case py_set (physical_memory st) (frame e) (-1) of
                  None \<Rightarrow> None
                | Some pm' \<Rightarrow>
                    (case set_entry (page_table st) process_id page_num (e\<lparr>valid := False\<rparr>) of
                       None \<Rightarrow> None
                     | Some pt' \<Rightarrow>
                         free_loop process_id rest
                           (st\<lparr>free_frames := deallocate (free_frames st) (frame e),
                               physical_memory := pm',
                               page_table := pt'\<rparr>)))
          else free_loop process_id rest st)"

definition free_process_frames :: "mmu \<Rightarrow> int \<Rightarrow> mmu option" where
  "free_process_frames st process_id =
     do {
       pr \<leftarrow> py_get (processes st) process_id;
       st1 \<leftarrow> free_loop process_id (py_range (m pr)) st;
       ps' \<leftarrow> py_set (processes st1) process_id (pr\<lparr>usecount := 0\<rparr>);
       Some (st1\<lparr>tlb := tlb_invalidate_process (tlb st1) process_id, processes := ps'\<rparr>)
     }"

section \<open>Process creation (process_manager.py)\<close>

text \<open>
  \<open>int(a / b)\<close>: true division, then truncation toward zero; \<open>ZeroDivisionError\<close>
  when \<open>b = 0\<close>.  The quotient is taken exactly; the source computes it in
  double precision, which agrees for operands far below \<open>2^53\<close>.
\<close>

definition int_truediv :: "int \<Rightarrow> int \<Rightarrow> int option" where
  "int_truediv a b = (if b = 0 then None else Some (sgn a * sgn b * (\<bar>a\<bar> div \<bar>b\<bar>)))"

text \<open>The loop \<open>for process in processes: allocation = 1 + int(...)\<close>.\<close>

fun allocate_frames :: "int \<Rightarrow> int \<Rightarrow> int \<Rightarrow> process list \<Rightarrow> process list option" where
  "allocate_frames num_frames num_processes total_pages [] = Some []"
| "allocate_frames num_frames num_processes total_pages (process # rest) =
     (case int_truediv (m process * (num_frames - num_processes)) total_pages of
        None \<Rightarrow> None
      | Some q \<Rightarrow>
          (case allocate_frames num_frames num_processes total_pages rest of
             None \<Rightarrow> None
           | Some rest' \<Rightarrow> Some (process\<lparr>allocount := 1 + q\<rparr> # rest')))"

text \<open>
  The loop \<open>while remaining > 0\<close>, which gives one more frame to
  \<open>random.choice(processes)\<close> each time.  The random draws are the parameter
  \<open>draw\<close>: the process chosen when \<open>r\<close> frames remain is number \<open>draw r mod k\<close>.
  \<open>random.choice\<close> of an empty list raises.
\<close>

fun distribute_remaining :: "nat \<Rightarrow> (nat \<Rightarrow> nat) \<Rightarrow> process list \<Rightarrow> process list option" where
  "distribute_remaining 0 draw ps = Some ps"
| "distribute_remaining (Suc r) draw ps =
     (if ps = [] then None
      else let i = draw (Suc r) mod length ps
           in distribute_remaining r draw (ps[i := (ps ! i)\<lparr>allocount := allocount (ps ! i) + 1\<rparr>]))"

text \<open>\<open>max(xs)\<close> of a non-empty list.\<close>

fun py_max :: "int list \<Rightarrow> int" where
  "py_max [] = 0"
| "py_max [x] = x"
| "py_max (x # xs) = max x (py_max xs)"

text \<open>The first loop of \<open>create_processes_with_references\<close>, from process number \<open>i\<close> on.\<close>

fun make_processes :: "int \<Rightarrow> int \<Rightarrow> int list list \<Rightarrow> process list option" where
  "make_processes max_pages i [] = Some []"
| "make_processes max_pages i (refs # rest) =
     (if refs = [] then None
      else let num_pages = py_max refs + 1
           in if num_pages > max_pages then None
              else (case make_processes max_pages (i + 1) rest of
                      None \<Rightarrow> None
                    | Some ps \<Rightarrow>
                        Some (\<lparr>pid = i, m = num_pages, allocount = 0, usecount = 0,
                               reference_string = refs, current_index = 0,
                               completed = False\<rparr> # ps)))"

definition create_processes_with_references ::
  "(nat \<Rightarrow> nat) \<Rightarrow> nat \<Rightarrow> nat \<Rightarrow> nat \<Rightarrow> int list list \<Rightarrow> process list option" where
  "create_processes_with_references draw num_processes max_pages num_frames reference_strings =
     (if length reference_strings \<noteq> num_processes then None
      else do {
        ps \<leftarrow> make_processes (int max_pages) 0 reference_strings;
        let total_pages = sum_list (map m ps);
        ps1 \<leftarrow> allocate_frames (int num_frames) (int num_processes) total_pages ps;
        let total_allocated = sum_list (map allocount ps1);
        distribute_remaining (nat (int num_frames - total_allocated)) draw ps1
      })"

section \<open>The scheduler (scheduler.py) and the implementor (implementor.py)\<close>

text \<open>
  A \<open>SimulationStep\<close> without its message and without the copy of the MMU state that
  \<open>get_state_snapshot\<close> reads: logical timestamp, process, page, event kind, frame.
\<close>

datatype simulation_step =
  SimulationStep (step_timestamp: int) (step_process_id: int) (step_page_number: int)
    (step_event: event) (step_frame_number: int)

text \<open>
  The state of a configured \<open>VirtualMemoryImplementor\<close> with its \<open>Scheduler\<close>.  The
  process list of both is the one in the MMU.  \<open>Scheduler.current_process\<close> is written
  and never read; it is left out.
\<close>

record implementor =
  the_mmu :: mmu
  ready_queue :: "int list"
  completed_count :: int
  total_processes :: int
  steps :: "simulation_step list"

text \<open>
  \<open>configure\<close> for explicit reference strings, with python/core's MMU (no sharing).
  An empty list of reference strings is the \<open>ValueError\<close> of \<open>configure\<close> itself.
\<close>

definition configure ::
  "(nat \<Rightarrow> nat) \<Rightarrow> nat \<Rightarrow> nat \<Rightarrow> nat \<Rightarrow> nat \<Rightarrow> page_replacement_algorithm \<Rightarrow> int list list
     \<Rightarrow> implementor option" where
  "configure draw num_processes max_pages num_frames tlb_size alg reference_strings =
     (if reference_strings = [] then None
      else do {
        ps \<leftarrow> create_processes_with_references draw num_processes max_pages num_frames
                reference_strings;
        Some \<lparr>the_mmu = MMU num_processes max_pages num_frames tlb_size alg False ps,
              ready_queue = map int [0..<length ps],
              completed_count = 0,
              total_processes = int (length ps),
              steps = []\<rparr>
      })"

definition is_simulation_complete :: "implementor \<Rightarrow> bool" where
  "is_simulation_complete s \<longleftrightarrow> completed_count s \<ge> total_processes s"

definition return_to_ready_queue :: "implementor \<Rightarrow> int \<Rightarrow> implementor option" where
  "return_to_ready_queue s process_id =
     do {
       pr \<leftarrow> py_get (processes (the_mmu s)) process_id;
       Some (if \<not> completed pr then s\<lparr>ready_queue := ready_queue s @ [process_id]\<rparr> else s)
     }"

definition mark_process_complete :: "implementor \<Rightarrow> int \<Rightarrow> implementor option" where
  "mark_process_complete s process_id =
     do {
       pr \<leftarrow> py_get (processes (the_mmu s)) process_id;
       ps' \<leftarrow> py_set (processes (the_mmu s)) process_id (pr\<lparr>completed := True\<rparr>);
       Some (s\<lparr>the_mmu := (the_mmu s)\<lparr>processes := ps'\<rparr>,
               completed_count := completed_count s + 1\<rparr>)
     }"

definition create_step :: "implementor \<Rightarrow> int \<Rightarrow> int \<Rightarrow> int \<Rightarrow> event \<Rightarrow> simulation_step" where
  "create_step s process_id page_number frame_number event_type =
     SimulationStep (timestamp (the_mmu s)) process_id page_number event_type frame_number"

definition handle_process_completion :: "implementor \<Rightarrow> int \<Rightarrow> implementor option" where
  "handle_process_completion s process_id =
     do {
       st' \<leftarrow> free_process_frames (the_mmu s) process_id;
       s1 \<leftarrow> mark_process_complete (s\<lparr>the_mmu := st'\<rparr>) process_id;
       Some (s1\<lparr>steps := steps s1 @ [create_step s1 process_id (-1) (-1) ProcessComplete]\<rparr>)
     }"

text \<open>
  One turn of the main loop of \<open>run_simulation\<close>, after \<open>get_next_process\<close> has taken
  \<open>process_id\<close> from the head of the ready queue.
\<close>

definition loop_body :: "implementor \<Rightarrow> int \<Rightarrow> implementor option" where
  "loop_body s process_id =
     do {
       process \<leftarrow> py_get (processes (the_mmu s)) process_id;
       if current_index process \<ge> int (length (reference_string process))
       then handle_process_completion s process_id
       else do {
         page_number \<leftarrow> py_get (reference_string process) (current_index process);
         (frame_number, event_type, st') \<leftarrow>
           handle_page_request_basic (the_mmu s) process_id page_number;
         let s0 = s\<lparr>the_mmu := st'\<rparr>;
         let s1 = s0\<lparr>steps := steps s0
                        @ [create_step s0 process_id page_number frame_number event_type]\<rparr>;
         if event_type = InvalidReference
         then handle_process_completion s1 process_id
         else if event_type = PageFault
         then do {
           (frame_number', st2) \<leftarrow> handle_page_fault_basic (the_mmu s1) process_id page_number;
           let s2 = s1\<lparr>the_mmu := st2\<rparr>;
           let s3 = s2\<lparr>steps := steps s2
                          @ [create_step s2 process_id page_number frame_number' PageFaultHandled]\<rparr>;
           return_to_ready_queue s3 process_id
         }
         else if event_type = TlbHit \<or> event_type = PageHit
         then do {
           process' \<leftarrow> py_get (processes (the_mmu s1)) process_id;
           let process'' = process'\<lparr>current_index := current_index process' + 1\<rparr>;
           ps' \<leftarrow> py_set (processes (the_mmu s1)) process_id process'';
           let s2 = s1\<lparr>the_mmu := (the_mmu s1)\<lparr>processes := ps'\<rparr>\<rparr>;
           if current_index process'' < int (length (reference_string process''))
           then return_to_ready_queue s2 process_id
           else handle_process_completion s2 process_id
         }
         else Some s1
       }
     }"

text \<open>
  The main loop.  It is not known in advance to end, so it runs on fuel: \<open>OutOfFuel\<close>
  when the fuel is used up, \<open>Raised\<close> when a turn raises (the \<open>except\<close> clause of
  \<open>run_simulation\<close> then reports failure), \<open>Finished\<close> with the final state when the
  scheduler reports completion or the ready queue is empty.
\<close>

datatype 'a outcome = OutOfFuel | Raised | Finished 'a

fun run_loop :: "nat \<Rightarrow> implementor \<Rightarrow> implementor outcome" where
  "run_loop fuel s =
     (if is_simulation_complete s then Finished s
      else (case ready_queue s of
              [] \<Rightarrow> Finished s
            | process_id # rest \<Rightarrow>
                (case loop_body (s\<lparr>ready_queue := rest\<rparr>) process_id of
                   None \<Rightarrow> Raised
                 | Some s' \<Rightarrow> (case fuel of 0 \<Rightarrow> OutOfFuel | Suc fuel' \<Rightarrow> run_loop fuel' s'))))"

text \<open>
  One turn of the loop as a partial step on states: defined where the loop condition
  holds, the ready queue is not empty and the body does not raise.  \<open>turns n\<close> makes
  \<open>n\<close> such turns.
\<close>

definition turn :: "implementor \<Rightarrow> implementor option" where
  "turn s =
     (if is_simulation_complete s then None
      else (case ready_queue s of
              [] \<Rightarrow> None
            | process_id # rest \<Rightarrow> loop_body (s\<lparr>ready_queue := rest\<rparr>) process_id))"

fun turns :: "nat \<Rightarrow> implementor \<Rightarrow> implementor option" where
  "turns 0 s = Some s"
| "turns (Suc n) s = (case turn s of None \<Rightarrow> None | Some s' \<Rightarrow> turns n s')"

text \<open>\<open>configure\<close> followed by \<open>run_simulation\<close>; a failed \<open>configure\<close> raises.\<close>

definition run_simulation ::
  "(nat \<Rightarrow> nat) \<Rightarrow> nat \<Rightarrow> nat \<Rightarrow> nat \<Rightarrow> nat \<Rightarrow> page_replacement_algorithm \<Rightarrow> int list list
     \<Rightarrow> nat \<Rightarrow> implementor outcome" where
  "run_simulation draw num_processes max_pages num_frames tlb_size alg reference_strings fuel =
     (case configure draw num_processes max_pages num_frames tlb_size alg reference_strings of
        None \<Rightarrow> Raised
      | Some s \<Rightarrow> run_loop fuel s)"

text \<open>The trace of a finished run: event kind, page and frame of every step, in order.\<close>

definition trace :: "implementor outcome \<Rightarrow> (event \<times> int \<times> int) list option" where
  "trace r =
     (case r of
        Finished s \<Rightarrow>
          Some (map (\<lambda>x. (step_event x, step_page_number x, step_frame_number x)) (steps s))
      | _ \<Rightarrow> None)"

section \<open>Predicates and example states used in the statements\<close>

text \<open>The page-table entry of page \<open>n\<close> of process \<open>p\<close> can be read and is not valid.\<close>

definition invalid_at :: "pt_entry list list \<Rightarrow> int \<Rightarrow> int \<Rightarrow> bool" where
  "invalid_at pt p n \<longleftrightarrow> (case get_entry pt p n of None \<Rightarrow> False | Some e \<Rightarrow> \<not> valid e)"

text \<open>
  An MMU of python/core with one process of two pages and a quota of two frames, after
  the fault on page 0 was served with frame 0.
\<close>

definition one_resident :: mmu where
  "one_resident =
     \<lparr>algorithm = LRU, enable_shared_memory = False, shared_page_numbers = {},
      page_table = [[\<lparr>frame = 0, valid = True, time = 1, frequency = 1,
                       read_only = False, shared = False\<rparr>, PTEntry]],
      tlb = [\<lparr>tlb_pid = 0, pageno = 0, frameno = 0, tlb_time = 1, tlb_valid = True\<rparr>],
      free_frames = [1], physical_memory = [0, -1], timestamp = 1,
      page_fault_counts = [1], tlb_hit_count = 0, page_hit_count = 0,
      processes = [\<lparr>pid = 0, m = 2, allocount = 2, usecount = 1,
                     reference_string = [0, 1], current_index = 0, completed = False\<rparr>]\<rparr>"

text \<open>The same MMU after \<open>free_process_frames\<close> of its process.\<close>

definition one_freed :: mmu where
  "one_freed =
     \<lparr>algorithm = LRU, enable_shared_memory = False, shared_page_numbers = {},
      page_table = [[\<lparr>frame = 0, valid = False, time = 1, frequency = 1,
                       read_only = False, shared = False\<rparr>, PTEntry]],
      tlb = [\<lparr>tlb_pid = 0, pageno = 0, frameno = 0, tlb_time = 1, tlb_valid = False\<rparr>],
      free_frames = [1, 0], physical_memory = [-1, -1], timestamp = 1,
      page_fault_counts = [1], tlb_hit_count = 0, page_hit_count = 0,
      processes = [\<lparr>pid = 0, m = 2, allocount = 2, usecount = 0,
                     reference_string = [0, 1], current_index = 0, completed = False\<rparr>]\<rparr>"

text \<open>
  The victim as the replacement table of the specification words it.  The pages of a
  process that may be evicted are its valid entries among pages \<open>0 .. m-1\<close>, in
  page-number order.  Every policy minimises a key: LRU the last access time, MRU the
  negated last access time (so the largest time), FIFO the frame number held, LFU the
  access frequency.  The chosen victim has the smallest key, and every candidate with a
  smaller page number has a strictly larger key (the first candidate wins a tie).
\<close>

definition policy_key :: "page_replacement_algorithm \<Rightarrow> pt_entry \<Rightarrow> int" where
  "policy_key alg e =
     (case alg of LRU \<Rightarrow> time e | MRU \<Rightarrow> - time e | FIFO \<Rightarrow> frame e | LFU \<Rightarrow> frequency e)"

definition resident_pages :: "pt_entry list \<Rightarrow> int \<Rightarrow> int list" where
  "resident_pages row num_pages = filter (\<lambda>n. valid (row ! nat n)) (py_range num_pages)"

definition chosen_victim :: "page_replacement_algorithm \<Rightarrow> pt_entry list \<Rightarrow> int \<Rightarrow> int \<Rightarrow> bool" where
  "chosen_victim alg row num_pages v \<longleftrightarrow>
     v \<in> set (resident_pages row num_pages) \<and>
     (\<forall>q \<in> set (resident_pages row num_pages).
        policy_key alg (row ! nat v) \<le> policy_key alg (row ! nat q) \<and>
        (q < v \<longrightarrow> policy_key alg (row ! nat v) < policy_key alg (row ! nat q)))"

text \<open>
  An MMU of backend/core under MRU: one process of three pages with both frames in use,
  page 0 in frame 0 (last used at time 2) and page 1 in frame 1 (last used at time 4),
  the TLB holding page 1.
\<close>

definition two_resident :: mmu where
  "two_resident =
     \<lparr>algorithm = MRU, enable_shared_memory = False, shared_page_numbers = {},
      page_table = [[\<lparr>frame = 0, valid = True, time = 2, frequency = 2,
                       read_only = False, shared = False\<rparr>,
                     \<lparr>frame = 1, valid = True, time = 4, frequency = 2,
                       read_only = False, shared = False\<rparr>,
                     PTEntry]],
      tlb = [\<lparr>tlb_pid = 0, pageno = 1, frameno = 1, tlb_time = 4, tlb_valid = True\<rparr>],
      free_frames = [], physical_memory = [0, 0], timestamp = 4,
      page_fault_counts = [2], tlb_hit_count = 2, page_hit_count = 0,
      processes = [\<lparr>pid = 0, m = 3, allocount = 2, usecount = 2,
                     reference_string = [0, 1, 2, 0, 1], current_index = 2,
                     completed = False\<rparr>]\<rparr>"

text \<open>
  What the scan of an eviction function has computed after the pages \<open>ns\<close>, started
  with the running optimum \<open>best\<close> and victim \<open>vic\<close>: if some valid page of \<open>ns\<close>
  beats \<open>best\<close>, the victim is the first valid page of \<open>ns\<close> with the optimal key;
  otherwise nothing has changed.  \<open>g\<close> turns the comparison of the policy into \<open><\<close>.
\<close>

definition scan_post ::
  "(int \<Rightarrow> int) \<Rightarrow> (pt_entry \<Rightarrow> int) \<Rightarrow> pt_entry list \<Rightarrow> int list \<Rightarrow> int \<Rightarrow> int \<Rightarrow> int \<Rightarrow> int \<Rightarrow> bool" where
  "scan_post g key row ns best vic best' vic' \<longleftrightarrow>
     (if \<exists>n \<in> set ns. valid (row ! nat n) \<and> g (key (row ! nat n)) < g best
      then vic' \<in> set ns \<and> valid (row ! nat vic') \<and> best' = key (row ! nat vic') \<and> g best' < g best \<and>
           (\<forall>q \<in> set ns. valid (row ! nat q) \<longrightarrow>
              g best' \<le> g (key (row ! nat q)) \<and> (q < vic' \<longrightarrow> g best' < g (key (row ! nat q))))
      else best' = best \<and> vic' = vic)"

text \<open>
  Scenario B at its start, on backend/core: two processes of one page each, sharing
  enabled (page 0 is the shareable page), two frames, a quota of one frame each.
\<close>

definition scenario_B_start :: mmu where
  "scenario_B_start =
     MMU 2 1 2 2 LRU True
       [\<lparr>pid = 0, m = 1, allocount = 1, usecount = 0, reference_string = [0],
          current_index = 0, completed = False\<rparr>,
        \<lparr>pid = 1, m = 1, allocount = 1, usecount = 0, reference_string = [0],
          current_index = 0, completed = False\<rparr>]"

text \<open>
  Scenario B after the fault of process 0 on page 0 was served with frame 0 and the
  request of process 1 for page 0 has faulted; and the same after that fault was served
  by the sharing branch.
\<close>

definition scenario_B_faulted :: mmu where
  "scenario_B_faulted =
     \<lparr>algorithm = LRU, enable_shared_memory = True, shared_page_numbers = {0},
      page_table = [[\<lparr>frame = 0, valid = True, time = 1, frequency = 1,
                       read_only = False, shared = False\<rparr>],
                    [PTEntry]],
      tlb = [\<lparr>tlb_pid = 0, pageno = 0, frameno = 0, tlb_time = 1, tlb_valid = True\<rparr>,
             TLBEntry],
      free_frames = [1], physical_memory = [0, -1], timestamp = 2,
      page_fault_counts = [1, 1], tlb_hit_count = 0, page_hit_count = 0,
      processes = [\<lparr>pid = 0, m = 1, allocount = 1, usecount = 1, reference_string = [0],
                     current_index = 0, completed = False\<rparr>,
                   \<lparr>pid = 1, m = 1, allocount = 1, usecount = 0, reference_string = [0],
                     current_index = 0, completed = False\<rparr>]\<rparr>"

definition scenario_B_shared :: mmu where
  "scenario_B_shared =
     scenario_B_faulted
       \<lparr>page_table := [[\<lparr>frame = 0, valid = True, time = 1, frequency = 1,
                          read_only = True, shared = True\<rparr>],
                       [\<lparr>frame = 0, valid = True, time = 2, frequency = 1,
                          read_only = True, shared = True\<rparr>]],
        tlb := [\<lparr>tlb_pid = 0, pageno = 0, frameno = 0, tlb_time = 1, tlb_valid = True\<rparr>,
                \<lparr>tlb_pid = 1, pageno = 0, frameno = 0, tlb_time = 2, tlb_valid = True\<rparr>]\<rparr>"

text \<open>The entry the sharing branch of \<open>handle_page_fault\<close> writes for the faulting process.\<close>

definition shared_entry :: "pt_entry \<Rightarrow> int \<Rightarrow> int \<Rightarrow> pt_entry" where
  "shared_entry e fr ts =
     e\<lparr>frame := fr, valid := True, time := ts, frequency := 1, read_only := True, shared := True\<rparr>"

text \<open>The entry \<open>handle_page_fault\<close> of backend/core writes after evicting or allocating.\<close>

definition private_entry :: "pt_entry \<Rightarrow> int \<Rightarrow> int \<Rightarrow> pt_entry" where
  "private_entry e fr ts =
     e\<lparr>frame := fr, valid := True, time := ts, frequency := 1, read_only := False, shared := False\<rparr>"

text \<open>
  Two processes with quota 1 each and two frames (python/core, reference strings
  \<open>[0, 1]\<close> and \<open>[0]\<close>), after four turns and the request of process 0 for page 1:
  process 1 has completed and released frame 1, process 0 holds page 0 in frame 0 and
  has just faulted on page 1.  \<open>quota_evicted\<close> is the state after that fault was served.
\<close>

definition quota_reached :: mmu where
  "quota_reached =
     \<lparr>algorithm = LRU, enable_shared_memory = False, shared_page_numbers = {},
      page_table = [[\<lparr>frame = 0, valid = True, time = 3, frequency = 2,
                       read_only = False, shared = False\<rparr>, PTEntry],
                    [\<lparr>frame = 1, valid = False, time = 4, frequency = 2,
                       read_only = False, shared = False\<rparr>, PTEntry]],
      tlb = [\<lparr>tlb_pid = 1, pageno = 0, frameno = 1, tlb_time = 4, tlb_valid = False\<rparr>],
      free_frames = [1], physical_memory = [0, -1], timestamp = 5,
      page_fault_counts = [2, 1], tlb_hit_count = 0, page_hit_count = 2,
      processes = [\<lparr>pid = 0, m = 2, allocount = 1, usecount = 1,
                     reference_string = [0, 1], current_index = 1, completed = False\<rparr>,
                   \<lparr>pid = 1, m = 1, allocount = 1, usecount = 0,
                     reference_string = [0], current_index = 1, completed = True\<rparr>]\<rparr>"

definition quota_evicted :: mmu where
  "quota_evicted =
     quota_reached
       \<lparr>page_table := [[\<lparr>frame = 0, valid = False, time = 3, frequency = 2,
                          read_only = False, shared = False\<rparr>,
                        \<lparr>frame = 0, valid = True, time = 5, frequency = 1,
                          read_only = False, shared = False\<rparr>],
                       [\<lparr>frame = 1, valid = False, time = 4, frequency = 2,
                          read_only = False, shared = False\<rparr>, PTEntry]],
        tlb := [\<lparr>tlb_pid = 0, pageno = 1, frameno = 0, tlb_time = 5, tlb_valid = True\<rparr>]\<rparr>"

text \<open>The MMU \<open>one_resident\<close> one step earlier: the request for page 0 has just faulted.\<close>

definition one_faulted :: mmu where
  "one_faulted =
     \<lparr>algorithm = LRU, enable_shared_memory = False, shared_page_numbers = {},
      page_table = [[PTEntry, PTEntry]],
      tlb = [TLBEntry],
      free_frames = [1, 0], physical_memory = [-1, -1], timestamp = 1,
      page_fault_counts = [1], tlb_hit_count = 0, page_hit_count = 0,
      processes = [\<lparr>pid = 0, m = 2, allocount = 2, usecount = 0,
                     reference_string = [0, 1], current_index = 0, completed = False\<rparr>]\<rparr>"

text \<open>
  Two processes, three frames and the reference strings \<open>[-3]\<close> and \<open>[0]\<close>
  (python/core, any policy), after the turn of process 0 and the request of process 1
  for page 0: process 0 has ended on its invalid reference, process 1 has quota 0,
  holds no page and has just faulted.  \<open>no_page_served\<close> is the state after that
  fault was served.
\<close>

definition no_page_held :: "page_replacement_algorithm \<Rightarrow> mmu" where
  "no_page_held alg =
     \<lparr>algorithm = alg, enable_shared_memory = False, shared_page_numbers = {},
      page_table = [[PTEntry], [PTEntry]],
      tlb = [TLBEntry],
      free_frames = [2, 1, 0], physical_memory = [-1, -1, -1], timestamp = 2,
      page_fault_counts = [0, 1], tlb_hit_count = 0, page_hit_count = 0,
      processes = [\<lparr>pid = 0, m = -2, allocount = 3, usecount = 0,
                     reference_string = [-3], current_index = 0, completed = True\<rparr>,
                   \<lparr>pid = 1, m = 1, allocount = 0, usecount = 0,
                     reference_string = [0], current_index = 0, completed = False\<rparr>]\<rparr>"

definition no_page_served :: "page_replacement_algorithm \<Rightarrow> mmu" where
  "no_page_served alg =
     (no_page_held alg)
       \<lparr>page_table := [[PTEntry],
                       [\<lparr>frame = -1, valid = True, time = 2, frequency = 1,
                          read_only = False, shared = False\<rparr>]],
        tlb := [\<lparr>tlb_pid = 1, pageno = 0, frameno = -1, tlb_time = 2, tlb_valid = True\<rparr>],
        physical_memory := [-1, -1, 1]\<rparr>"

text \<open>
  The implementor as \<open>configure\<close> leaves it for two runs of python/core under LRU
  with a TLB of one entry: \<open>invalid_start\<close> for three frames and the reference
  strings \<open>[-3]\<close> and \<open>[0]\<close>, \<open>quota_start\<close> for two frames and the reference
  strings \<open>[0, 1]\<close> and \<open>[0]\<close>.
\<close>

definition invalid_start :: implementor where
  "invalid_start =
     \<lparr>the_mmu = MMU 2 1 3 1 LRU False
                  [\<lparr>pid = 0, m = -2, allocount = 3, usecount = 0,
                     reference_string = [-3], current_index = 0, completed = False\<rparr>,
                   \<lparr>pid = 1, m = 1, allocount = 0, usecount = 0,
                     reference_string = [0], current_index = 0, completed = False\<rparr>],
      ready_queue = [0, 1], completed_count = 0, total_processes = 2, steps = []\<rparr>"


section \<open>Well-formed states of a run\<close>

text \<open>
  What every state of a run satisfies, and what keeps the functions from raising.  The
  page tables have one row per process, each at least as long as the declared page
  count of its process; every frame field, valid or not, and every member of the free
  pool is -1 or a frame number (a frame field of -1 can come from the free pool and be
  returned to it); the fault counters have one cell per process; the TLB
  and the physical memory are not empty.
\<close>

definition rows_ok :: "process list \<Rightarrow> pt_entry list list \<Rightarrow> nat \<Rightarrow> bool" where
  "rows_ok ps pt f \<longleftrightarrow>
     length pt = length ps \<and>
     (\<forall>i < length ps. m (ps ! i) \<le> int (length (pt ! i)) \<and>
        (\<forall>e \<in> set (pt ! i). -1 \<le> frame e \<and> frame e < int f))"

definition frames_ok :: "int list \<Rightarrow> nat \<Rightarrow> bool" where
  "frames_ok fs f \<longleftrightarrow> (\<forall>x \<in> set fs. -1 \<le> x \<and> x < int f)"

definition wf_mmu :: "mmu \<Rightarrow> bool" where
  "wf_mmu st \<longleftrightarrow>
     rows_ok (processes st) (page_table st) (length (physical_memory st)) \<and>
     frames_ok (free_frames st) (length (physical_memory st)) \<and>
     length (page_fault_counts st) = length (processes st) \<and>
     tlb st \<noteq> [] \<and> physical_memory st \<noteq> []"

text \<open>
  For the implementor in addition: the scheduler counts the completed processes, the
  ready queue holds process numbers without repetition, none of them completed, and no
  cursor is negative.
\<close>

definition wf_implementor :: "implementor \<Rightarrow> bool" where
  "wf_implementor s \<longleftrightarrow>
     wf_mmu (the_mmu s) \<and>
     total_processes s = int (length (processes (the_mmu s))) \<and>
     completed_count s = int (length (filter completed (processes (the_mmu s)))) \<and>
     distinct (ready_queue s) \<and>
     (\<forall>q \<in> set (ready_queue s).
        0 \<le> q \<and> q < int (length (processes (the_mmu s))) \<and>
        \<not> completed (processes (the_mmu s) ! nat q)) \<and>
     (\<forall>pr \<in> set (processes (the_mmu s)). 0 \<le> current_index pr)"

section \<open>Subscripting\<close>

lemma py_index_nonneg: "0 \<le> i \<Longrightarrow> i < int (length xs) \<Longrightarrow> py_index xs i = Some (nat i)"
  by (simp add: py_index_def)

lemma py_index_bound: "py_index xs i = Some j \<Longrightarrow> j < length xs"
  by (auto simp: py_index_def Let_def split: if_splits)

lemma py_index_update [simp]: "py_index (xs[j := v]) i = py_index xs i"
  by (simp add: py_index_def)

lemma py_index_same_length: "length ys = length xs \<Longrightarrow> py_index ys i = py_index xs i"
  by (simp add: py_index_def)

lemma py_get_nonneg: "0 \<le> i \<Longrightarrow> i < int (length xs) \<Longrightarrow> py_get xs i = Some (xs ! nat i)"
  by (simp add: py_get_def py_index_nonneg)

lemma py_set_nonneg: "0 \<le> i \<Longrightarrow> i < int (length xs) \<Longrightarrow> py_set xs i v = Some (xs[nat i := v])"
  by (simp add: py_set_def py_index_nonneg)

lemma py_get_SomeD:
  "py_get xs i = Some x \<Longrightarrow> \<exists>j. py_index xs i = Some j \<and> j < length xs \<and> x = xs ! j"
  by (auto simp: py_get_def split: option.splits dest: py_index_bound)

lemma py_set_SomeD:
  "py_set xs i v = Some ys \<Longrightarrow> \<exists>j. py_index xs i = Some j \<and> j < length xs \<and> ys = xs[j := v]"
  by (auto simp: py_set_def split: option.splits dest: py_index_bound)

lemma py_get_py_set: "py_set xs i v = Some ys \<Longrightarrow> py_get ys i = Some v"
  by (auto simp: py_get_def dest!: py_set_SomeD)

lemma py_set_same: "py_get xs i = Some v \<Longrightarrow> py_set xs i v = Some xs"
  by (auto simp: py_set_def dest!: py_get_SomeD)

lemma get_entry_SomeD:
  "get_entry pt p n = Some e \<Longrightarrow>
     \<exists>i j. py_index pt p = Some i \<and> i < length pt \<and> py_index (pt ! i) n = Some j
        \<and> j < length (pt ! i) \<and> e = pt ! i ! j"
  by (auto simp: get_entry_def split: option.splits dest!: py_get_SomeD)

lemma set_entry_SomeD:
  "set_entry pt p n e = Some pt' \<Longrightarrow>
     \<exists>i j. py_index pt p = Some i \<and> i < length pt \<and> py_index (pt ! i) n = Some j
        \<and> j < length (pt ! i) \<and> pt' = pt[i := (pt ! i)[j := e]]"
  by (auto simp: set_entry_def split: option.splits dest!: py_get_SomeD py_set_SomeD)

lemma get_entry_I:
  "py_index pt p = Some i \<Longrightarrow> py_index (pt ! i) n = Some j \<Longrightarrow> get_entry pt p n = Some (pt ! i ! j)"
  by (simp add: get_entry_def py_get_def)

lemma set_entry_I:
  "py_index pt p = Some i \<Longrightarrow> py_index (pt ! i) n = Some j \<Longrightarrow>
     set_entry pt p n e = Some (pt[i := (pt ! i)[j := e]])"
  by (simp add: set_entry_def py_get_def py_set_def)

section \<open>The scan for a victim\<close>

lemma py_range_sorted: "sorted_wrt (<) (py_range k)"
  by (simp add: py_range_def sorted_wrt_map)

lemma py_range_set: "n \<in> set (py_range k) \<longleftrightarrow> 0 \<le> n \<and> n < k"
  by (auto simp: py_range_def image_iff intro: bexI[of _ "nat n"])

lemma scan_post_take:
  assumes "valid (row ! nat n)" "g (key (row ! nat n)) < g best" "\<forall>q \<in> set ns. n < q"
    and "scan_post g key row ns (key (row ! nat n)) n b' v'"
  shows "scan_post g key row (n # ns) best vic b' v'"
proof (cases "\<exists>q \<in> set ns. valid (row ! nat q) \<and> g (key (row ! nat q)) < g (key (row ! nat n))")
  case True
  with assms(4) have "v' \<in> set ns \<and> valid (row ! nat v') \<and> b' = key (row ! nat v') \<and>
      g b' < g (key (row ! nat n)) \<and>
      (\<forall>q \<in> set ns. valid (row ! nat q) \<longrightarrow>
              g b' \<le> g (key (row ! nat q)) \<and> (q < v' \<longrightarrow> g b' < g (key (row ! nat q))))"
    unfolding scan_post_def by (auto split: if_splits)
  then have v: "v' \<in> set ns" "valid (row ! nat v')" "b' = key (row ! nat v')"
      "g b' < g (key (row ! nat n))"
      "\<forall>q \<in> set ns. valid (row ! nat q) \<longrightarrow>
              g b' \<le> g (key (row ! nat q)) \<and> (q < v' \<longrightarrow> g b' < g (key (row ! nat q)))"
    by blast+
  have "g b' < g best" using v(4) assms(2) by linarith
  moreover have "g b' \<le> g (key (row ! nat n))" using v(4) by linarith
  ultimately show ?thesis
    unfolding scan_post_def using assms(1,2) v by auto
next
  case False
  with assms(4) have v: "b' = key (row ! nat n)" "v' = n" unfolding scan_post_def by simp_all
  have "\<forall>q \<in> set ns. valid (row ! nat q) \<longrightarrow> g b' \<le> g (key (row ! nat q))"
    using False v(1) by (meson not_le_imp_less)
  moreover have "\<forall>q \<in> set ns. \<not> q < v'" using assms(3) v(2) by auto
  ultimately show ?thesis
    unfolding scan_post_def using assms(1,2) v by auto
qed

lemma scan_post_skip:
  assumes "\<not> (valid (row ! nat n) \<and> g (key (row ! nat n)) < g best)" "\<forall>q \<in> set ns. n < q"
    and "scan_post g key row ns best vic b' v'"
  shows "scan_post g key row (n # ns) best vic b' v'"
proof (cases "\<exists>q \<in> set ns. valid (row ! nat q) \<and> g (key (row ! nat q)) < g best")
  case True
  with assms(3) have "v' \<in> set ns \<and> valid (row ! nat v') \<and> b' = key (row ! nat v') \<and>
      g b' < g best \<and>
      (\<forall>q \<in> set ns. valid (row ! nat q) \<longrightarrow>
              g b' \<le> g (key (row ! nat q)) \<and> (q < v' \<longrightarrow> g b' < g (key (row ! nat q))))"
    unfolding scan_post_def by (auto split: if_splits)
  then have v: "v' \<in> set ns" "valid (row ! nat v')" "b' = key (row ! nat v')"
      "g b' < g best"
      "\<forall>q \<in> set ns. valid (row ! nat q) \<longrightarrow>
              g b' \<le> g (key (row ! nat q)) \<and> (q < v' \<longrightarrow> g b' < g (key (row ! nat q)))"
    by blast+
  have "valid (row ! nat n) \<longrightarrow> g b' < g (key (row ! nat n))" using v(4) assms(1) by auto
  then show ?thesis
    unfolding scan_post_def using True v by auto
next
  case False
  with assms(3) have v: "b' = best" "v' = vic" unfolding scan_post_def by simp_all
  show ?thesis
    unfolding scan_post_def using False assms(1) v by auto
qed

lemma scan_victim_min:
  assumes better: "\<And>a b. better a b \<longleftrightarrow> (g a :: int) < g b"
  shows "sorted_wrt (<) ns \<Longrightarrow> \<forall>n \<in> set ns. 0 \<le> n \<and> n < int (length row) \<Longrightarrow>
     \<exists>best' vic'. scan_victim key better row ns best vic = Some (best', vic') \<and>
        scan_post g key row ns best vic best' vic'"
proof (induction ns arbitrary: best vic)
  case Nil
  then show ?case by (simp add: scan_post_def)
next
  case (Cons n ns)
  let ?e = "row ! nat n"
  have get: "py_get row n = Some ?e" using Cons.prems(2) by (simp add: py_get_nonneg)
  have later: "\<forall>q \<in> set ns. n < q" using Cons.prems(1) by simp
  have srt: "sorted_wrt (<) ns" using Cons.prems(1) by simp
  have rng: "\<forall>n \<in> set ns. 0 \<le> n \<and> n < int (length row)" using Cons.prems(2) by simp
  show ?case
  proof (cases "valid ?e \<and> g (key ?e) < g best")
    case True
    from Cons.IH[OF srt rng, of "key ?e" n] obtain b' v' where
      r: "scan_victim key better row ns (key ?e) n = Some (b', v')" and
      c: "scan_post g key row ns (key ?e) n b' v'" by blast
    have s: "scan_victim key better row (n # ns) best vic = Some (b', v')"
      using True get r by (simp add: better)
    from scan_post_take[OF _ _ later c] True s show ?thesis by blast
  next
    case False
    from Cons.IH[OF srt rng, of best vic] obtain b' v' where
      r: "scan_victim key better row ns best vic = Some (b', v')" and
      c: "scan_post g key row ns best vic b' v'" by blast
    have s: "scan_victim key better row (n # ns) best vic = Some (b', v')"
      using False get r by (auto simp add: better)
    from scan_post_skip[OF False later c] s show ?thesis by blast
  qed
qed

lemma evict_by_victim:
  assumes better: "\<And>a b. better a b \<longleftrightarrow> (g a :: int) < g b"
    and p: "0 \<le> p" "p < int (length (processes st))" "length (page_table st) = length (processes st)"
    and len: "m (processes st ! nat p) \<le> int (length (page_table st ! nat p))"
    and n: "n \<in> set (resident_pages (page_table st ! nat p) (m (processes st ! nat p)))"
           "g (key (page_table st ! nat p ! nat n)) < g init"
  shows "\<exists>v. v \<in> set (resident_pages (page_table st ! nat p) (m (processes st ! nat p))) \<and>
            (\<forall>q \<in> set (resident_pages (page_table st ! nat p) (m (processes st ! nat p))).
               g (key (page_table st ! nat p ! nat v)) \<le> g (key (page_table st ! nat p ! nat q)) \<and>
               (q < v \<longrightarrow> g (key (page_table st ! nat p ! nat v)) < g (key (page_table st ! nat p ! nat q)))) \<and>
            evict_by key better init st p =
              Some (frame (page_table st ! nat p ! nat v),
                    st\<lparr>page_table := (page_table st)[nat p :=
                          (page_table st ! nat p)[nat v := (page_table st ! nat p ! nat v)\<lparr>valid := False\<rparr>]],
                       tlb := tlb_invalidate_page (tlb st) p v\<rparr>)"
proof -
  let ?row = "page_table st ! nat p"
  let ?mp = "m (processes st ! nat p)"
  have gp: "py_get (processes st) p = Some (processes st ! nat p)"
    using p by (simp add: py_get_nonneg)
  have gr: "py_get (page_table st) p = Some ?row"
    using p by (simp add: py_get_nonneg)
  have rng: "\<forall>n \<in> set (py_range ?mp). 0 \<le> n \<and> n < int (length ?row)"
    using len by (auto simp: py_range_set)
  from scan_victim_min[where better=better and g=g, OF better py_range_sorted rng, of key init "-1"]
  obtain b' v where
    sc: "scan_victim key better ?row (py_range ?mp) init (-1) = Some (b', v)"
    and post: "scan_post g key ?row (py_range ?mp) init (-1) b' v" by blast
  have ex: "\<exists>n \<in> set (py_range ?mp). valid (?row ! nat n) \<and> g (key (?row ! nat n)) < g init"
    using n by (auto simp: resident_pages_def)
  with post have "v \<in> set (py_range ?mp) \<and> valid (?row ! nat v) \<and> b' = key (?row ! nat v) \<and> g b' < g init \<and>
           (\<forall>q \<in> set (py_range ?mp). valid (?row ! nat q) \<longrightarrow>
              g b' \<le> g (key (?row ! nat q)) \<and> (q < v \<longrightarrow> g b' < g (key (?row ! nat q))))"
    unfolding scan_post_def by (auto split: if_splits)
  then have v: "v \<in> set (py_range ?mp)" "valid (?row ! nat v)" "b' = key (?row ! nat v)"
    "\<forall>q \<in> set (py_range ?mp). valid (?row ! nat q) \<longrightarrow>
              g b' \<le> g (key (?row ! nat q)) \<and> (q < v \<longrightarrow> g b' < g (key (?row ! nat q)))"
    by blast+
  have vr: "0 \<le> v" "v < int (length ?row)" using v(1) rng by auto
  have ge: "py_get ?row v = Some (?row ! nat v)" using vr by (simp add: py_get_nonneg)
  have se: "set_entry (page_table st) p v e = Some ((page_table st)[nat p := ?row[nat v := e]])" for e
    using p vr by (simp add: set_entry_def py_get_nonneg py_set_nonneg)
  have res: "v \<in> set (resident_pages ?row ?mp)"
    using v(1,2) by (simp add: resident_pages_def)
  have opt: "\<forall>q \<in> set (resident_pages ?row ?mp).
               g (key (?row ! nat v)) \<le> g (key (?row ! nat q)) \<and>
               (q < v \<longrightarrow> g (key (?row ! nat v)) < g (key (?row ! nat q)))"
    using v(3,4) by (simp add: resident_pages_def)
  have ev: "evict_by key better init st p =
              Some (frame (?row ! nat v),
                    st\<lparr>page_table := (page_table st)[nat p := ?row[nat v := (?row ! nat v)\<lparr>valid := False\<rparr>]],
                       tlb := tlb_invalidate_page (tlb st) p v\<rparr>)"
    by (simp add: evict_by_def gp gr sc ge se)
  show ?thesis by (rule exI[of _ v]) (intro conjI res opt ev)
qed

lemma tlb_unmatch: "\<not> tlb_match (if tlb_match e p v then e\<lparr>tlb_valid := False\<rparr> else e) p v"
proof (cases "tlb_match e p v")
  case True
  then show ?thesis by (simp add: tlb_match_def)
next
  case False
  then show ?thesis by simp
qed

lemma tlb_invalidate_page_no_match:
  "e \<in> set (tlb_invalidate_page es p v) \<Longrightarrow> \<not> tlb_match e p v"
  unfolding tlb_invalidate_page_def set_map using tlb_unmatch by blast

lemma evict_page_victim:
  assumes p: "0 \<le> p" "p < int (length (processes st))" "length (page_table st) = length (processes st)"
    and len: "m (processes st ! nat p) \<le> int (length (page_table st ! nat p))"
    and n: "n \<in> set (resident_pages (page_table st ! nat p) (m (processes st ! nat p)))"
    and bounds: "-1 < time (page_table st ! nat p ! nat n)"
                "time (page_table st ! nat p ! nat n) < sys_maxsize"
                "frame (page_table st ! nat p ! nat n) < sys_maxsize"
                "frequency (page_table st ! nat p ! nat n) < sys_maxsize"
  shows "\<exists>v. chosen_victim (algorithm st) (page_table st ! nat p) (m (processes st ! nat p)) v \<and>
            evict_page st p =
              Some (frame (page_table st ! nat p ! nat v),
                    st\<lparr>page_table := (page_table st)[nat p :=
                          (page_table st ! nat p)[nat v := (page_table st ! nat p ! nat v)\<lparr>valid := False\<rparr>]],
                       tlb := tlb_invalidate_page (tlb st) p v\<rparr>)"
proof -
  let ?row = "page_table st ! nat p"
  let ?mp = "m (processes st ! nat p)"
  show ?thesis
  proof (cases "algorithm st")
  case LRU
  have "\<exists>v. v \<in> set (resident_pages ?row ?mp) \<and>
            (\<forall>q \<in> set (resident_pages ?row ?mp).
               (\<lambda>x. x) (time (?row ! nat v)) \<le> (\<lambda>x. x) (time (?row ! nat q)) \<and>
               (q < v \<longrightarrow> (\<lambda>x. x) (time (?row ! nat v)) < (\<lambda>x. x) (time (?row ! nat q)))) \<and>
            evict_by time (\<lambda>a b. a < b) (sys_maxsize) st p =
              Some (frame (?row ! nat v),
                    st\<lparr>page_table := (page_table st)[nat p := ?row[nat v := (?row ! nat v)\<lparr>valid := False\<rparr>]],
                       tlb := tlb_invalidate_page (tlb st) p v\<rparr>)"
    using evict_by_victim[where g="\<lambda>x. x" and key=time and better="\<lambda>a b. a < b" and init="sys_maxsize" and st=st and p=p and n=n, OF _ p len n] bounds
    by simp
  then obtain v where vv: "v \<in> set (resident_pages ?row ?mp) \<and>
      (\<forall>q \<in> set (resident_pages ?row ?mp).
               (\<lambda>x. x) (time (?row ! nat v)) \<le> (\<lambda>x. x) (time (?row ! nat q)) \<and>
               (q < v \<longrightarrow> (\<lambda>x. x) (time (?row ! nat v)) < (\<lambda>x. x) (time (?row ! nat q)))) \<and>
      evict_by time (\<lambda>a b. a < b) (sys_maxsize) st p =
              Some (frame (?row ! nat v),
                    st\<lparr>page_table := (page_table st)[nat p := ?row[nat v := (?row ! nat v)\<lparr>valid := False\<rparr>]],
                       tlb := tlb_invalidate_page (tlb st) p v\<rparr>)" ..
  have v: "v \<in> set (resident_pages ?row ?mp)"
      "\<forall>q \<in> set (resident_pages ?row ?mp).
               (\<lambda>x. x) (time (?row ! nat v)) \<le> (\<lambda>x. x) (time (?row ! nat q)) \<and>
               (q < v \<longrightarrow> (\<lambda>x. x) (time (?row ! nat v)) < (\<lambda>x. x) (time (?row ! nat q)))"
      "evict_by time (\<lambda>a b. a < b) (sys_maxsize) st p =
              Some (frame (?row ! nat v),
                    st\<lparr>page_table := (page_table st)[nat p := ?row[nat v := (?row ! nat v)\<lparr>valid := False\<rparr>]],
                       tlb := tlb_invalidate_page (tlb st) p v\<rparr>)"
    using vv by (rule conjunct1, rule conjunct2[THEN conjunct1], rule conjunct2[THEN conjunct2])
  have cv: "chosen_victim (algorithm st) ?row ?mp v"
    using v(1,2) LRU by (simp add: chosen_victim_def policy_key_def)
  have ev: "evict_page st p = Some (frame (?row ! nat v),
                    st\<lparr>page_table := (page_table st)[nat p := ?row[nat v := (?row ! nat v)\<lparr>valid := False\<rparr>]],
                       tlb := tlb_invalidate_page (tlb st) p v\<rparr>)"
    using v(3) LRU by (simp add: evict_page_def evict_lru_def)
  show ?thesis by (rule exI[of _ v]) (intro conjI cv ev)
next
  case MRU
  have "\<exists>v. v \<in> set (resident_pages ?row ?mp) \<and>
            (\<forall>q \<in> set (resident_pages ?row ?mp).
               (\<lambda>x. - x) (time (?row ! nat v)) \<le> (\<lambda>x. - x) (time (?row ! nat q)) \<and>
               (q < v \<longrightarrow> (\<lambda>x. - x) (time (?row ! nat v)) < (\<lambda>x. - x) (time (?row ! nat q)))) \<and>
            evict_by time (\<lambda>a b. a > b) (-1) st p =
              Some (frame (?row ! nat v),
                    st\<lparr>page_table := (page_table st)[nat p := ?row[nat v := (?row ! nat v)\<lparr>valid := False\<rparr>]],
                       tlb := tlb_invalidate_page (tlb st) p v\<rparr>)"
    using evict_by_victim[where g="\<lambda>x. - x" and key=time and better="\<lambda>a b. a > b" and init="-1" and st=st and p=p and n=n, OF _ p len n] bounds
    by simp
  then obtain v where vv: "v \<in> set (resident_pages ?row ?mp) \<and>
      (\<forall>q \<in> set (resident_pages ?row ?mp).
               (\<lambda>x. - x) (time (?row ! nat v)) \<le> (\<lambda>x. - x) (time (?row ! nat q)) \<and>
               (q < v \<longrightarrow> (\<lambda>x. - x) (time (?row ! nat v)) < (\<lambda>x. - x) (time (?row ! nat q)))) \<and>
      evict_by time (\<lambda>a b. a > b) (-1) st p =
              Some (frame (?row ! nat v),
                    st\<lparr>page_table := (page_table st)[nat p := ?row[nat v := (?row ! nat v)\<lparr>valid := False\<rparr>]],
                       tlb := tlb_invalidate_page (tlb st) p v\<rparr>)" ..
  have v: "v \<in> set (resident_pages ?row ?mp)"
      "\<forall>q \<in> set (resident_pages ?row ?mp).
               (\<lambda>x. - x) (time (?row ! nat v)) \<le> (\<lambda>x. - x) (time (?row ! nat q)) \<and>
               (q < v \<longrightarrow> (\<lambda>x. - x) (time (?row ! nat v)) < (\<lambda>x. - x) (time (?row ! nat q)))"
      "evict_by time (\<lambda>a b. a > b) (-1) st p =
              Some (frame (?row ! nat v),
                    st\<lparr>page_table := (page_table st)[nat p := ?row[nat v := (?row ! nat v)\<lparr>valid := False\<rparr>]],
                       tlb := tlb_invalidate_page (tlb st) p v\<rparr>)"
    using vv by (rule conjunct1, rule conjunct2[THEN conjunct1], rule conjunct2[THEN conjunct2])
  have cv: "chosen_victim (algorithm st) ?row ?mp v"
    using v(1,2) MRU by (simp add: chosen_victim_def policy_key_def)
  have ev: "evict_page st p = Some (frame (?row ! nat v),
                    st\<lparr>page_table := (page_table st)[nat p := ?row[nat v := (?row ! nat v)\<lparr>valid := False\<rparr>]],
                       tlb := tlb_invalidate_page (tlb st) p v\<rparr>)"
    using v(3) MRU by (simp add: evict_page_def evict_mru_def)
  show ?thesis by (rule exI[of _ v]) (intro conjI cv ev)
next
  case FIFO
  have "\<exists>v. v \<in> set (resident_pages ?row ?mp) \<and>
            (\<forall>q \<in> set (resident_pages ?row ?mp).
               (\<lambda>x. x) (frame (?row ! nat v)) \<le> (\<lambda>x. x) (frame (?row ! nat q)) \<and>
               (q < v \<longrightarrow> (\<lambda>x. x) (frame (?row ! nat v)) < (\<lambda>x. x) (frame (?row ! nat q)))) \<and>
            evict_by frame (\<lambda>a b. a < b) (sys_maxsize) st p =
              Some (frame (?row ! nat v),
                    st\<lparr>page_table := (page_table st)[nat p := ?row[nat v := (?row ! nat v)\<lparr>valid := False\<rparr>]],
                       tlb := tlb_invalidate_page (tlb st) p v\<rparr>)"
    using evict_by_victim[where g="\<lambda>x. x" and key=frame and better="\<lambda>a b. a < b" and init="sys_maxsize" and st=st and p=p and n=n, OF _ p len n] bounds
    by simp
  then obtain v where vv: "v \<in> set (resident_pages ?row ?mp) \<and>
      (\<forall>q \<in> set (resident_pages ?row ?mp).
               (\<lambda>x. x) (frame (?row ! nat v)) \<le> (\<lambda>x. x) (frame (?row ! nat q)) \<and>
               (q < v \<longrightarrow> (\<lambda>x. x) (frame (?row ! nat v)) < (\<lambda>x. x) (frame (?row ! nat q)))) \<and>
      evict_by frame (\<lambda>a b. a < b) (sys_maxsize) st p =
              Some (frame (?row ! nat v),
                    st\<lparr>page_table := (page_table st)[nat p := ?row[nat v := (?row ! nat v)\<lparr>valid := False\<rparr>]],
                       tlb := tlb_invalidate_page (tlb st) p v\<rparr>)" ..
  have v: "v \<in> set (resident_pages ?row ?mp)"
      "\<forall>q \<in> set (resident_pages ?row ?mp).
               (\<lambda>x. x) (frame (?row ! nat v)) \<le> (\<lambda>x. x) (frame (?row ! nat q)) \<and>
               (q < v \<longrightarrow> (\<lambda>x. x) (frame (?row ! nat v)) < (\<lambda>x. x) (frame (?row ! nat q)))"
      "evict_by frame (\<lambda>a b. a < b) (sys_maxsize) st p =
              Some (frame (?row ! nat v),
                    st\<lparr>page_table := (page_table st)[nat p := ?row[nat v := (?row ! nat v)\<lparr>valid := False\<rparr>]],
                       tlb := tlb_invalidate_page (tlb st) p v\<rparr>)"
    using vv by (rule conjunct1, rule conjunct2[THEN conjunct1], rule conjunct2[THEN conjunct2])
  have cv: "chosen_victim (algorithm st) ?row ?mp v"
    using v(1,2) FIFO by (simp add: chosen_victim_def policy_key_def)
  have ev: "evict_page st p = Some (frame (?row ! nat v),
                    st\<lparr>page_table := (page_table st)[nat p := ?row[nat v := (?row ! nat v)\<lparr>valid := False\<rparr>]],
                       tlb := tlb_invalidate_page (tlb st) p v\<rparr>)"
    using v(3) FIFO by (simp add: evict_page_def evict_fifo_def)
  show ?thesis by (rule exI[of _ v]) (intro conjI cv ev)
next
  case LFU
  have "\<exists>v. v \<in> set (resident_pages ?row ?mp) \<and>
            (\<forall>q \<in> set (resident_pages ?row ?mp).
               (\<lambda>x. x) (frequency (?row ! nat v)) \<le> (\<lambda>x. x) (frequency (?row ! nat q)) \<and>
               (q < v \<longrightarrow> (\<lambda>x. x) (frequency (?row ! nat v)) < (\<lambda>x. x) (frequency (?row ! nat q)))) \<and>
            evict_by frequency (\<lambda>a b. a < b) (sys_maxsize) st p =
              Some (frame (?row ! nat v),
                    st\<lparr>page_table := (page_table st)[nat p := ?row[nat v := (?row ! nat v)\<lparr>valid := False\<rparr>]],
                       tlb := tlb_invalidate_page (tlb st) p v\<rparr>)"
    using evict_by_victim[where g="\<lambda>x. x" and key=frequency and better="\<lambda>a b. a < b" and init="sys_maxsize" and st=st and p=p and n=n, OF _ p len n] bounds
    by simp
  then obtain v where vv: "v \<in> set (resident_pages ?row ?mp) \<and>
      (\<forall>q \<in> set (resident_pages ?row ?mp).
               (\<lambda>x. x) (frequency (?row ! nat v)) \<le> (\<lambda>x. x) (frequency (?row ! nat q)) \<and>
               (q < v \<longrightarrow> (\<lambda>x. x) (frequency (?row ! nat v)) < (\<lambda>x. x) (frequency (?row ! nat q)))) \<and>
      evict_by frequency (\<lambda>a b. a < b) (sys_maxsize) st p =
              Some (frame (?row ! nat v),
                    st\<lparr>page_table := (page_table st)[nat p := ?row[nat v := (?row ! nat v)\<lparr>valid := False\<rparr>]],
                       tlb := tlb_invalidate_page (tlb st) p v\<rparr>)" ..
  have v: "v \<in> set (resident_pages ?row ?mp)"
      "\<forall>q \<in> set (resident_pages ?row ?mp).
               (\<lambda>x. x) (frequency (?row ! nat v)) \<le> (\<lambda>x. x) (frequency (?row ! nat q)) \<and>
               (q < v \<longrightarrow> (\<lambda>x. x) (frequency (?row ! nat v)) < (\<lambda>x. x) (frequency (?row ! nat q)))"
      "evict_by frequency (\<lambda>a b. a < b) (sys_maxsize) st p =
              Some (frame (?row ! nat v),
                    st\<lparr>page_table := (page_table st)[nat p := ?row[nat v := (?row ! nat v)\<lparr>valid := False\<rparr>]],
                       tlb := tlb_invalidate_page (tlb st) p v\<rparr>)"
    using vv by (rule conjunct1, rule conjunct2[THEN conjunct1], rule conjunct2[THEN conjunct2])
  have cv: "chosen_victim (algorithm st) ?row ?mp v"
    using v(1,2) LFU by (simp add: chosen_victim_def policy_key_def)
  have ev: "evict_page st p = Some (frame (?row ! nat v),
                    st\<lparr>page_table := (page_table st)[nat p := ?row[nat v := (?row ! nat v)\<lparr>valid := False\<rparr>]],
                       tlb := tlb_invalidate_page (tlb st) p v\<rparr>)"
    using v(3) LFU by (simp add: evict_page_def evict_lfu_def)
  show ?thesis by (rule exI[of _ v]) (intro conjI cv ev)
qed
qed

lemma chosen_victim_unique:
  "chosen_victim alg row mp v \<Longrightarrow> chosen_victim alg row mp w \<Longrightarrow> v = w"
proof (rule ccontr)
  assume a: "chosen_victim alg row mp v" "chosen_victim alg row mp w" and ne: "v \<noteq> w"
  from ne consider "v < w" | "w < v" by linarith
  then show False
  proof cases
    case 1
    with a show ?thesis unfolding chosen_victim_def by (meson less_le_not_le)
  next
    case 2
    with a show ?thesis unfolding chosen_victim_def by (meson less_le_not_le)
  qed
qed

section \<open>The TLB update and the sharing branch\<close>

lemma tlb_refresh_length: "tlb_refresh es p n fr ts = Some es' \<Longrightarrow> length es' = length es"
  by (induction es arbitrary: es') (auto split: if_splits option.splits)

lemma tlb_fill_length: "tlb_fill es p n fr ts = Some es' \<Longrightarrow> length es' = length es"
  by (induction es arbitrary: es') (auto split: if_splits option.splits)

lemma tlb_replace_length [simp]: "length (tlb_replace es mt p n fr ts) = length es"
  by (induction es) auto

lemma update_tlb_Some:
  "es \<noteq> [] \<Longrightarrow> \<exists>es'. update_tlb es p n fr ts = Some es' \<and> length es' = length es"
  by (auto simp: update_tlb_def split: option.splits dest: tlb_refresh_length tlb_fill_length)

lemma update_tlb_length: "update_tlb es p n fr ts = Some es' \<Longrightarrow> length es' = length es"
  by (auto simp: update_tlb_def split: option.splits if_splits dest: tlb_refresh_length tlb_fill_length)

lemma find_sharer_finds:
  assumes "0 \<le> n"
    and "\<forall>(i, pr) \<in> set xs. 0 \<le> i \<and> i < int (length pt) \<and> m pr \<le> int (length (pt ! nat i))"
    and "\<exists>(i, pr) \<in> set xs. i \<noteq> p \<and> n < m pr \<and> valid (pt ! nat i ! nat n)"
  shows "\<exists>(i, pr) \<in> set xs. i \<noteq> p \<and> n < m pr \<and> valid (pt ! nat i ! nat n) \<and>
           find_sharer pt xs p n = Some (Some i)"
  using assms(2,3)
proof (induction xs)
  case Nil
  then show ?case by simp
next
  case (Cons x xs)
  obtain i pr where x: "x = (i, pr)" by (cases x)
  have ir: "0 \<le> i" "i < int (length pt)" "m pr \<le> int (length (pt ! nat i))"
    using Cons.prems(1) x by auto
  have ge: "n < m pr \<Longrightarrow> get_entry pt i n = Some (pt ! nat i ! nat n)"
    using ir assms(1) by (simp add: get_entry_def py_get_nonneg)
  show ?case
  proof (cases "i \<noteq> p \<and> n < m pr \<and> valid (pt ! nat i ! nat n)")
    case True
    then show ?thesis using x ge by simp
  next
    case False
    then have ex: "\<exists>(i, pr) \<in> set xs. i \<noteq> p \<and> n < m pr \<and> valid (pt ! nat i ! nat n)"
      using Cons.prems(2) x by auto
    have all: "\<forall>(i, pr) \<in> set xs. 0 \<le> i \<and> i < int (length pt) \<and> m pr \<le> int (length (pt ! nat i))"
      using Cons.prems(1) by simp
    have eq: "find_sharer pt (x # xs) p n = find_sharer pt xs p n"
      using False x ge by auto
    from Cons.IH[OF all ex] show ?thesis unfolding eq by auto
  qed
qed

lemma enumerate_set: "(i, x) \<in> set (enumerate xs) \<longleftrightarrow> 0 \<le> i \<and> i < int (length xs) \<and> x = xs ! nat i"
proof -
  have "(i, x) \<in> set (enumerate xs) \<longleftrightarrow> (\<exists>j < length xs. i = int j \<and> x = xs ! j)"
    by (auto simp: enumerate_def set_zip intro: exI)
       (metis add.left_neutral diff_zero length_upt nth_map nth_upt)+
  also have "\<dots> \<longleftrightarrow> 0 \<le> i \<and> i < int (length xs) \<and> x = xs ! nat i"
    by (auto intro: exI[of _ "nat i"])
  finally show ?thesis .
qed


lemma handle_page_request_protection:
  assumes "0 \<le> p" "p < int (length (processes st))" "length (page_table st) = length (processes st)"
    and "0 \<le> n" "n < m (processes st ! nat p)" "n < int (length (page_table st ! nat p))"
    and "valid (page_table st ! nat p ! nat n)" "read_only (page_table st ! nat p ! nat n)"
    and "is_write a"
  shows "handle_page_request st p n a = Some (-1, ProtectionFault, st\<lparr>timestamp := timestamp st + 1\<rparr>)"
proof -
  have g: "py_get (processes st) p = Some (processes st ! nat p)"
    using assms by (simp add: py_get_nonneg)
  have e: "get_entry (page_table st) p n = Some (page_table st ! nat p ! nat n)"
    using assms by (simp add: get_entry_def py_get_nonneg)
  show ?thesis
    using assms(4,5,7,8,9) by (simp add: handle_page_request_def Let_def g e split: prod.splits)
qed

lemma shared_fault:
  assumes sh: "enable_shared_memory st" "n \<in> shared_page_numbers st"
    and wf: "length (page_table st) = length (processes st)"
            "\<forall>r < length (processes st). m (processes st ! r) \<le> int (length (page_table st ! r))"
    and p: "0 \<le> p" "p < int (length (processes st))"
    and n: "0 \<le> n" "n < m (processes st ! nat p)"
    and other: "q < length (processes st)" "int q \<noteq> p" "n < m (processes st ! q)"
               "valid (page_table st ! q ! nat n)"
    and tlb: "tlb st \<noteq> []"
  shows "\<exists>i tlb'. i < length (processes st) \<and> int i \<noteq> p \<and> n < m (processes st ! i) \<and>
            valid (page_table st ! i ! nat n) \<and>
            update_tlb (tlb st) p n (frame (page_table st ! i ! nat n)) (timestamp st) = Some tlb' \<and>
            handle_page_fault st p n =
              Some (frame (page_table st ! i ! nat n),
                    st\<lparr>page_table :=
                         (page_table st)
                           [nat p := (page_table st ! nat p)
                              [nat n := shared_entry (page_table st ! nat p ! nat n)
                                          (frame (page_table st ! i ! nat n)) (timestamp st)],
                            i := (page_table st ! i)
                              [nat n := (page_table st ! i ! nat n)\<lparr>read_only := True, shared := True\<rparr>]],
                       tlb := tlb'\<rparr>)"
proof -
  let ?pt = "page_table st" and ?ps = "processes st"
  have all: "\<forall>(i, pr) \<in> set (enumerate ?ps). 0 \<le> i \<and> i < int (length ?pt) \<and> m pr \<le> int (length (?pt ! nat i))"
    using wf by (auto simp: enumerate_set)
  have ex: "\<exists>(i, pr) \<in> set (enumerate ?ps). i \<noteq> p \<and> n < m pr \<and> valid (?pt ! nat i ! nat n)"
    using other by (auto simp: enumerate_set intro!: bexI[of _ "(int q, ?ps ! q)"])
  from find_sharer_finds[OF n(1) all ex] obtain j pr where
    j: "(j, pr) \<in> set (enumerate ?ps)" "j \<noteq> p" "n < m pr" "valid (?pt ! nat j ! nat n)"
       "find_sharer ?pt (enumerate ?ps) p n = Some (Some j)" by auto
  have jr: "0 \<le> j" "j < int (length ?ps)" "pr = ?ps ! nat j" using j(1) by (simp_all add: enumerate_set)
  define i where "i = nat j"
  have i: "i < length ?ps" "int i \<noteq> p" "n < m (?ps ! i)" "valid (?pt ! i ! nat n)" "j = int i"
    using jr j(2,3,4) by (simp_all add: i_def)
  have ip: "i \<noteq> nat p" using i(2) p(1) by auto
  have lp: "nat n < length (?pt ! nat p)" using wf(2) p n by (metis nat_less_iff nat_le_iff not_le order.strict_trans2 zless_nat_conj)
  have li: "nat n < length (?pt ! i)" using wf(2) i(1,3) n(1) by (metis nat_less_iff not_le order.strict_trans2 zless_nat_conj nat_le_iff)
  have gp: "py_get ?ps p = Some (?ps ! nat p)" using p by (simp add: py_get_nonneg)
  have goe: "get_entry ?pt (int i) n = Some (?pt ! i ! nat n)"
    using i(1) li n(1) wf(1) by (simp add: get_entry_def py_get_nonneg)
  have ge: "get_entry ?pt p n = Some (?pt ! nat p ! nat n)"
    using p lp n(1) wf(1) by (simp add: get_entry_def py_get_nonneg)
  define fr where "fr = frame (?pt ! i ! nat n)"
  define e1 where "e1 = shared_entry (?pt ! nat p ! nat n) fr (timestamp st)"
  define pt1 where "pt1 = ?pt[nat p := (?pt ! nat p)[nat n := e1]]"
  have s1: "set_entry ?pt p n e1 = Some pt1"
    using p lp n(1) wf(1) by (simp add: set_entry_def py_get_nonneg py_set_nonneg pt1_def)
  have l1: "length pt1 = length ?pt" by (simp add: pt1_def)
  have r1: "pt1 ! i = ?pt ! i" using ip by (simp add: pt1_def)
  have goe1: "get_entry pt1 (int i) n = Some (?pt ! i ! nat n)"
    using i(1) li n(1) wf(1) l1 r1 by (simp add: get_entry_def py_get_nonneg)
  define pt2 where "pt2 = pt1[i := (?pt ! i)[nat n := (?pt ! i ! nat n)\<lparr>read_only := True, shared := True\<rparr>]]"
  have s2: "set_entry pt1 (int i) n ((?pt ! i ! nat n)\<lparr>read_only := True, shared := True\<rparr>) = Some pt2"
    using i(1) li n(1) wf(1) l1 r1 by (simp add: set_entry_def py_get_nonneg py_set_nonneg pt2_def)
  from update_tlb_Some[OF tlb, of p n fr "timestamp st"] obtain tlb' where
    t: "update_tlb (tlb st) p n fr (timestamp st) = Some tlb'" by blast
  have ins: "install_shared st p n (int i) = Some (fr, st\<lparr>page_table := pt2, tlb := tlb'\<rparr>)"
    using goe ge s1[unfolded e1_def shared_entry_def] goe1 s2 t
    by (simp add: install_shared_def Let_def fr_def[symmetric] e1_def[symmetric] shared_entry_def[symmetric])
  have hf: "handle_page_fault st p n = Some (fr, st\<lparr>page_table := pt2, tlb := tlb'\<rparr>)"
    using sh gp j(5) ins by (simp add: handle_page_fault_def i(5))
  show ?thesis
    apply (rule exI[of _ i], rule exI[of _ tlb'])
    using i(1,2,3,4) t hf unfolding fr_def pt2_def pt1_def e1_def fr_def
    by simp
qed

section \<open>Evicting or allocating\<close>

lemma evict_by_frame:
  "evict_by key better init st p = Some (fr, st1) \<Longrightarrow>
     free_frames st1 = free_frames st \<and> processes st1 = processes st \<and>
     physical_memory st1 = physical_memory st \<and> timestamp st1 = timestamp st \<and>
     page_fault_counts st1 = page_fault_counts st"
  by (auto simp: evict_by_def split: Option.bind_splits prod.splits)

lemma evict_page_frame:
  "evict_page st p = Some (fr, st1) \<Longrightarrow>
     free_frames st1 = free_frames st \<and> processes st1 = processes st \<and>
     physical_memory st1 = physical_memory st \<and> timestamp st1 = timestamp st \<and>
     page_fault_counts st1 = page_fault_counts st"
  unfolding evict_page_def evict_lru_def evict_mru_def evict_fifo_def evict_lfu_def
  by (cases "algorithm st") (simp_all add: evict_by_frame)

lemma evict_page_basic_frame:
  "evict_page_basic st p = Some (fr, st1) \<Longrightarrow>
     free_frames st1 = free_frames st \<and> processes st1 = processes st \<and>
     physical_memory st1 = physical_memory st \<and> timestamp st1 = timestamp st \<and>
     page_fault_counts st1 = page_fault_counts st"
  unfolding evict_page_basic_def evict_lru_def evict_fifo_def evict_lfu_def
  by (auto simp: evict_by_frame split: if_splits)

lemma allocate_and_install_evict:
  assumes "py_get (processes st) p = Some pr"
    and "free_frames st = [] \<or> usecount pr \<ge> allocount pr"
    and "allocate_and_install st p n = Some (fr, st')"
  shows "\<exists>st1 e. evict_page st p = Some (fr, st1) \<and>
           get_entry (page_table st1) p n = Some e \<and>
           set_entry (page_table st1) p n (private_entry e fr (timestamp st)) = Some (page_table st') \<and>
           free_frames st' = free_frames st \<and> processes st' = processes st"
proof -
  from assms obtain fr0 st1 where ev: "evict_page st p = Some (fr0, st1)"
    by (auto simp: allocate_and_install_def split: Option.bind_splits)
  note fr = evict_page_frame[OF ev]
  have "\<exists>e pt' pm' tlb'. get_entry (page_table st1) p n = Some e \<and>
    set_entry (page_table st1) p n (private_entry e fr0 (timestamp st1)) = Some pt' \<and>
    fr = fr0 \<and> st' = st1\<lparr>page_table := pt', physical_memory := pm', tlb := tlb'\<rparr>"
    using assms ev unfolding allocate_and_install_def private_entry_def
    by (simp add: bind_eq_Some_conv) blast
  then obtain e pt' pm' tlb' where
    a: "get_entry (page_table st1) p n = Some e"
    "set_entry (page_table st1) p n (private_entry e fr0 (timestamp st1)) = Some pt'"
    "fr = fr0" "st' = st1\<lparr>page_table := pt', physical_memory := pm', tlb := tlb'\<rparr>"
    by blast
  have "evict_page st p = Some (fr, st1)" using ev a(3) by simp
  moreover have "set_entry (page_table st1) p n (private_entry e fr (timestamp st)) = Some (page_table st')"
    using a fr by simp
  moreover have "free_frames st' = free_frames st" "processes st' = processes st"
    using a(4) fr by simp_all
  ultimately show ?thesis using a(1) by blast
qed

lemma allocate_and_install_alloc:
  assumes "py_get (processes st) p = Some pr"
    and "\<not> (free_frames st = [] \<or> usecount pr \<ge> allocount pr)"
    and "allocate_and_install st p n = Some (fr, st')"
  shows "\<exists>e. fr = last (free_frames st) \<and> free_frames st' = butlast (free_frames st) \<and>
           py_set (processes st) p (pr\<lparr>usecount := usecount pr + 1\<rparr>) = Some (processes st') \<and>
           get_entry (page_table st) p n = Some e \<and>
           set_entry (page_table st) p n (private_entry e fr (timestamp st)) = Some (page_table st')"
  using assms
  by (auto simp: allocate_and_install_def allocate_def private_entry_def split: Option.bind_splits)

section \<open>Evicting or allocating in python/core\<close>

lemma evict_page_basic_victim:
  assumes p: "0 \<le> p" "p < int (length (processes st))" "length (page_table st) = length (processes st)"
    and len: "m (processes st ! nat p) \<le> int (length (page_table st ! nat p))"
    and n: "n \<in> set (resident_pages (page_table st ! nat p) (m (processes st ! nat p)))"
    and bounds: "-1 < time (page_table st ! nat p ! nat n)"
                "time (page_table st ! nat p ! nat n) < sys_maxsize"
                "frame (page_table st ! nat p ! nat n) < sys_maxsize"
                "frequency (page_table st ! nat p ! nat n) < sys_maxsize"
  shows "\<exists>v. chosen_victim (if algorithm st = MRU then LRU else algorithm st) (page_table st ! nat p) (m (processes st ! nat p)) v \<and>
            evict_page_basic st p =
              Some (frame (page_table st ! nat p ! nat v),
                    st\<lparr>page_table := (page_table st)[nat p :=
                          (page_table st ! nat p)[nat v := (page_table st ! nat p ! nat v)\<lparr>valid := False\<rparr>]],
                       tlb := tlb_invalidate_page (tlb st) p v\<rparr>)"
proof -
  let ?row = "page_table st ! nat p"
  let ?mp = "m (processes st ! nat p)"
  show ?thesis
  proof (cases "algorithm st")
  case LRU
  have "\<exists>v. v \<in> set (resident_pages ?row ?mp) \<and>
            (\<forall>q \<in> set (resident_pages ?row ?mp).
               (\<lambda>x. x) (time (?row ! nat v)) \<le> (\<lambda>x. x) (time (?row ! nat q)) \<and>
               (q < v \<longrightarrow> (\<lambda>x. x) (time (?row ! nat v)) < (\<lambda>x. x) (time (?row ! nat q)))) \<and>
            evict_by time (\<lambda>a b. a < b) (sys_maxsize) st p =
              Some (frame (?row ! nat v),
                    st\<lparr>page_table := (page_table st)[nat p := ?row[nat v := (?row ! nat v)\<lparr>valid := False\<rparr>]],
                       tlb := tlb_invalidate_page (tlb st) p v\<rparr>)"
    using evict_by_victim[where g="\<lambda>x. x" and key=time and better="\<lambda>a b. a < b" and init="sys_maxsize" and st=st and p=p and n=n, OF _ p len n] bounds
    by simp
  then obtain v where vv: "v \<in> set (resident_pages ?row ?mp) \<and>
      (\<forall>q \<in> set (resident_pages ?row ?mp).
               (\<lambda>x. x) (time (?row ! nat v)) \<le> (\<lambda>x. x) (time (?row ! nat q)) \<and>
               (q < v \<longrightarrow> (\<lambda>x. x) (time (?row ! nat v)) < (\<lambda>x. x) (time (?row ! nat q)))) \<and>
      evict_by time (\<lambda>a b. a < b) (sys_maxsize) st p =
              Some (frame (?row ! nat v),
                    st\<lparr>page_table := (page_table st)[nat p := ?row[nat v := (?row ! nat v)\<lparr>valid := False\<rparr>]],
                       tlb := tlb_invalidate_page (tlb st) p v\<rparr>)" ..
  have v: "v \<in> set (resident_pages ?row ?mp)"
      "\<forall>q \<in> set (resident_pages ?row ?mp).
               (\<lambda>x. x) (time (?row ! nat v)) \<le> (\<lambda>x. x) (time (?row ! nat q)) \<and>
               (q < v \<longrightarrow> (\<lambda>x. x) (time (?row ! nat v)) < (\<lambda>x. x) (time (?row ! nat q)))"
      "evict_by time (\<lambda>a b. a < b) (sys_maxsize) st p =
              Some (frame (?row ! nat v),
                    st\<lparr>page_table := (page_table st)[nat p := ?row[nat v := (?row ! nat v)\<lparr>valid := False\<rparr>]],
                       tlb := tlb_invalidate_page (tlb st) p v\<rparr>)"
    using vv by (rule conjunct1, rule conjunct2[THEN conjunct1], rule conjunct2[THEN conjunct2])
  have cv: "chosen_victim (if algorithm st = MRU then LRU else algorithm st) ?row ?mp v"
    using v(1,2) LRU by (simp add: chosen_victim_def policy_key_def)
  have ev: "evict_page_basic st p = Some (frame (?row ! nat v),
                    st\<lparr>page_table := (page_table st)[nat p := ?row[nat v := (?row ! nat v)\<lparr>valid := False\<rparr>]],
                       tlb := tlb_invalidate_page (tlb st) p v\<rparr>)"
    using v(3) LRU by (simp add: evict_page_basic_def evict_lru_def)
  show ?thesis by (rule exI[of _ v]) (intro conjI cv ev)
next
  case MRU
  have "\<exists>v. v \<in> set (resident_pages ?row ?mp) \<and>
            (\<forall>q \<in> set (resident_pages ?row ?mp).
               (\<lambda>x. x) (time (?row ! nat v)) \<le> (\<lambda>x. x) (time (?row ! nat q)) \<and>
               (q < v \<longrightarrow> (\<lambda>x. x) (time (?row ! nat v)) < (\<lambda>x. x) (time (?row ! nat q)))) \<and>
            evict_by time (\<lambda>a b. a < b) (sys_maxsize) st p =
              Some (frame (?row ! nat v),
                    st\<lparr>page_table := (page_table st)[nat p := ?row[nat v := (?row ! nat v)\<lparr>valid := False\<rparr>]],
                       tlb := tlb_invalidate_page (tlb st) p v\<rparr>)"
    using evict_by_victim[where g="\<lambda>x. x" and key=time and better="\<lambda>a b. a < b" and init="sys_maxsize" and st=st and p=p and n=n, OF _ p len n] bounds
    by simp
  then obtain v where vv: "v \<in> set (resident_pages ?row ?mp) \<and>
      (\<forall>q \<in> set (resident_pages ?row ?mp).
               (\<lambda>x. x) (time (?row ! nat v)) \<le> (\<lambda>x. x) (time (?row ! nat q)) \<and>
               (q < v \<longrightarrow> (\<lambda>x. x) (time (?row ! nat v)) < (\<lambda>x. x) (time (?row ! nat q)))) \<and>
      evict_by time (\<lambda>a b. a < b) (sys_maxsize) st p =
              Some (frame (?row ! nat v),
                    st\<lparr>page_table := (page_table st)[nat p := ?row[nat v := (?row ! nat v)\<lparr>valid := False\<rparr>]],
                       tlb := tlb_invalidate_page (tlb st) p v\<rparr>)" ..
  have v: "v \<in> set (resident_pages ?row ?mp)"
      "\<forall>q \<in> set (resident_pages ?row ?mp).
               (\<lambda>x. x) (time (?row ! nat v)) \<le> (\<lambda>x. x) (time (?row ! nat q)) \<and>
               (q < v \<longrightarrow> (\<lambda>x. x) (time (?row ! nat v)) < (\<lambda>x. x) (time (?row ! nat q)))"
      "evict_by time (\<lambda>a b. a < b) (sys_maxsize) st p =
              Some (frame (?row ! nat v),
                    st\<lparr>page_table := (page_table st)[nat p := ?row[nat v := (?row ! nat v)\<lparr>valid := False\<rparr>]],
                       tlb := tlb_invalidate_page (tlb st) p v\<rparr>)"
    using vv by (rule conjunct1, rule conjunct2[THEN conjunct1], rule conjunct2[THEN conjunct2])
  have cv: "chosen_victim (if algorithm st = MRU then LRU else algorithm st) ?row ?mp v"
    using v(1,2) MRU by (simp add: chosen_victim_def policy_key_def)
  have ev: "evict_page_basic st p = Some (frame (?row ! nat v),
                    st\<lparr>page_table := (page_table st)[nat p := ?row[nat v := (?row ! nat v)\<lparr>valid := False\<rparr>]],
                       tlb := tlb_invalidate_page (tlb st) p v\<rparr>)"
    using v(3) MRU by (simp add: evict_page_basic_def evict_lru_def)
  show ?thesis by (rule exI[of _ v]) (intro conjI cv ev)
next
  case FIFO
  have "\<exists>v. v \<in> set (resident_pages ?row ?mp) \<and>
            (\<forall>q \<in> set (resident_pages ?row ?mp).
               (\<lambda>x. x) (frame (?row ! nat v)) \<le> (\<lambda>x. x) (frame (?row ! nat q)) \<and>
               (q < v \<longrightarrow> (\<lambda>x. x) (frame (?row ! nat v)) < (\<lambda>x. x) (frame (?row ! nat q)))) \<and>
            evict_by frame (\<lambda>a b. a < b) (sys_maxsize) st p =
              Some (frame (?row ! nat v),
                    st\<lparr>page_table := (page_table st)[nat p := ?row[nat v := (?row ! nat v)\<lparr>valid := False\<rparr>]],
                       tlb := tlb_invalidate_page (tlb st) p v\<rparr>)"
    using evict_by_victim[where g="\<lambda>x. x" and key=frame and better="\<lambda>a b. a < b" and init="sys_maxsize" and st=st and p=p and n=n, OF _ p len n] bounds
    by simp
  then obtain v where vv: "v \<in> set (resident_pages ?row ?mp) \<and>
      (\<forall>q \<in> set (resident_pages ?row ?mp).
               (\<lambda>x. x) (frame (?row ! nat v)) \<le> (\<lambda>x. x) (frame (?row ! nat q)) \<and>
               (q < v \<longrightarrow> (\<lambda>x. x) (frame (?row ! nat v)) < (\<lambda>x. x) (frame (?row ! nat q)))) \<and>
      evict_by frame (\<lambda>a b. a < b) (sys_maxsize) st p =
              Some (frame (?row ! nat v),
                    st\<lparr>page_table := (page_table st)[nat p := ?row[nat v := (?row ! nat v)\<lparr>valid := False\<rparr>]],
                       tlb := tlb_invalidate_page (tlb st) p v\<rparr>)" ..
  have v: "v \<in> set (resident_pages ?row ?mp)"
      "\<forall>q \<in> set (resident_pages ?row ?mp).
               (\<lambda>x. x) (frame (?row ! nat v)) \<le> (\<lambda>x. x) (frame (?row ! nat q)) \<and>
               (q < v \<longrightarrow> (\<lambda>x. x) (frame (?row ! nat v)) < (\<lambda>x. x) (frame (?row ! nat q)))"
      "evict_by frame (\<lambda>a b. a < b) (sys_maxsize) st p =
              Some (frame (?row ! nat v),
                    st\<lparr>page_table := (page_table st)[nat p := ?row[nat v := (?row ! nat v)\<lparr>valid := False\<rparr>]],
                       tlb := tlb_invalidate_page (tlb st) p v\<rparr>)"
    using vv by (rule conjunct1, rule conjunct2[THEN conjunct1], rule conjunct2[THEN conjunct2])
  have cv: "chosen_victim (if algorithm st = MRU then LRU else algorithm st) ?row ?mp v"
    using v(1,2) FIFO by (simp add: chosen_victim_def policy_key_def)
  have ev: "evict_page_basic st p = Some (frame (?row ! nat v),
                    st\<lparr>page_table := (page_table st)[nat p := ?row[nat v := (?row ! nat v)\<lparr>valid := False\<rparr>]],
                       tlb := tlb_invalidate_page (tlb st) p v\<rparr>)"
    using v(3) FIFO by (simp add: evict_page_basic_def evict_fifo_def)
  show ?thesis by (rule exI[of _ v]) (intro conjI cv ev)
next
  case LFU
  have "\<exists>v. v \<in> set (resident_pages ?row ?mp) \<and>
            (\<forall>q \<in> set (resident_pages ?row ?mp).
               (\<lambda>x. x) (frequency (?row ! nat v)) \<le> (\<lambda>x. x) (frequency (?row ! nat q)) \<and>
               (q < v \<longrightarrow> (\<lambda>x. x) (frequency (?row ! nat v)) < (\<lambda>x. x) (frequency (?row ! nat q)))) \<and>
            evict_by frequency (\<lambda>a b. a < b) (sys_maxsize) st p =
              Some (frame (?row ! nat v),
                    st\<lparr>page_table := (page_table st)[nat p := ?row[nat v := (?row ! nat v)\<lparr>valid := False\<rparr>]],
                       tlb := tlb_invalidate_page (tlb st) p v\<rparr>)"
    using evict_by_victim[where g="\<lambda>x. x" and key=frequency and better="\<lambda>a b. a < b" and init="sys_maxsize" and st=st and p=p and n=n, OF _ p len n] bounds
    by simp
  then obtain v where vv: "v \<in> set (resident_pages ?row ?mp) \<and>
      (\<forall>q \<in> set (resident_pages ?row ?mp).
               (\<lambda>x. x) (frequency (?row ! nat v)) \<le> (\<lambda>x. x) (frequency (?row ! nat q)) \<and>
               (q < v \<longrightarrow> (\<lambda>x. x) (frequency (?row ! nat v)) < (\<lambda>x. x) (frequency (?row ! nat q)))) \<and>
      evict_by frequency (\<lambda>a b. a < b) (sys_maxsize) st p =
              Some (frame (?row ! nat v),
                    st\<lparr>page_table := (page_table st)[nat p := ?row[nat v := (?row ! nat v)\<lparr>valid := False\<rparr>]],
                       tlb := tlb_invalidate_page (tlb st) p v\<rparr>)" ..
  have v: "v \<in> set (resident_pages ?row ?mp)"
      "\<forall>q \<in> set (resident_pages ?row ?mp).
               (\<lambda>x. x) (frequency (?row ! nat v)) \<le> (\<lambda>x. x) (frequency (?row ! nat q)) \<and>
               (q < v \<longrightarrow> (\<lambda>x. x) (frequency (?row ! nat v)) < (\<lambda>x. x) (frequency (?row ! nat q)))"
      "evict_by frequency (\<lambda>a b. a < b) (sys_maxsize) st p =
              Some (frame (?row ! nat v),
                    st\<lparr>page_table := (page_table st)[nat p := ?row[nat v := (?row ! nat v)\<lparr>valid := False\<rparr>]],
                       tlb := tlb_invalidate_page (tlb st) p v\<rparr>)"
    using vv by (rule conjunct1, rule conjunct2[THEN conjunct1], rule conjunct2[THEN conjunct2])
  have cv: "chosen_victim (if algorithm st = MRU then LRU else algorithm st) ?row ?mp v"
    using v(1,2) LFU by (simp add: chosen_victim_def policy_key_def)
  have ev: "evict_page_basic st p = Some (frame (?row ! nat v),
                    st\<lparr>page_table := (page_table st)[nat p := ?row[nat v := (?row ! nat v)\<lparr>valid := False\<rparr>]],
                       tlb := tlb_invalidate_page (tlb st) p v\<rparr>)"
    using v(3) LFU by (simp add: evict_page_basic_def evict_lfu_def)
  show ?thesis by (rule exI[of _ v]) (intro conjI cv ev)
qed
qed

lemma handle_page_fault_basic_evict:
  assumes "py_get (processes st) p = Some pr"
    and "free_frames st = [] \<or> usecount pr \<ge> allocount pr"
    and "handle_page_fault_basic st p n = Some (fr, st')"
  shows "\<exists>st1 e. evict_page_basic st p = Some (fr, st1) \<and>
           get_entry (page_table st1) p n = Some e \<and>
           set_entry (page_table st1) p n
             (e\<lparr>frame := fr, valid := True, time := timestamp st, frequency := 1\<rparr>) = Some (page_table st') \<and>
           free_frames st' = free_frames st \<and> processes st' = processes st"
proof -
  from assms obtain fr0 st1 where ev: "evict_page_basic st p = Some (fr0, st1)"
    by (auto simp: handle_page_fault_basic_def split: Option.bind_splits)
  note fr = evict_page_basic_frame[OF ev]
  have "\<exists>e pt' pm' tlb'. get_entry (page_table st1) p n = Some e \<and>
    set_entry (page_table st1) p n
       (e\<lparr>frame := fr0, valid := True, time := timestamp st1, frequency := 1\<rparr>) = Some pt' \<and>
    fr = fr0 \<and> st' = st1\<lparr>page_table := pt', physical_memory := pm', tlb := tlb'\<rparr>"
    using assms ev unfolding handle_page_fault_basic_def
    by (simp add: bind_eq_Some_conv) blast
  then obtain e pt' pm' tlb' where
    a: "get_entry (page_table st1) p n = Some e"
    "set_entry (page_table st1) p n
       (e\<lparr>frame := fr0, valid := True, time := timestamp st1, frequency := 1\<rparr>) = Some pt'"
    "fr = fr0" "st' = st1\<lparr>page_table := pt', physical_memory := pm', tlb := tlb'\<rparr>"
    by blast
  have "evict_page_basic st p = Some (fr, st1)" using ev a(3) by simp
  moreover have "set_entry (page_table st1) p n
       (e\<lparr>frame := fr, valid := True, time := timestamp st, frequency := 1\<rparr>) = Some (page_table st')"
    using a fr by simp
  moreover have "free_frames st' = free_frames st" "processes st' = processes st"
    using a(4) fr by simp_all
  ultimately show ?thesis using a(1) by blast
qed

lemma handle_page_fault_basic_alloc:
  assumes "py_get (processes st) p = Some pr"
    and "\<not> (free_frames st = [] \<or> usecount pr \<ge> allocount pr)"
    and "handle_page_fault_basic st p n = Some (fr, st')"
  shows "\<exists>e. fr = last (free_frames st) \<and> free_frames st' = butlast (free_frames st) \<and>
           py_set (processes st) p (pr\<lparr>usecount := usecount pr + 1\<rparr>) = Some (processes st') \<and>
           get_entry (page_table st) p n = Some e \<and>
           set_entry (page_table st) p n
             (e\<lparr>frame := fr, valid := True, time := timestamp st, frequency := 1\<rparr>) = Some (page_table st')"
  using assms
  by (auto simp: handle_page_fault_basic_def allocate_def split: Option.bind_splits)

lemma install_after_evict:
  assumes p: "0 \<le> p" "p < int (length pt)"
    and n: "0 \<le> n" "nat n < length (pt ! nat p)"
    and v: "0 \<le> v" "nat v < length (pt ! nat p)" "valid (pt ! nat p ! nat v)"
    and inv: "\<not> valid (pt ! nat p ! nat n)"
    and ge: "get_entry (pt[nat p := (pt ! nat p)[nat v := w]]) p n = Some e"
    and se: "set_entry (pt[nat p := (pt ! nat p)[nat v := w]]) p n (f e) = Some pt'"
  shows "pt' = pt[nat p := (pt ! nat p)[nat v := w, nat n := f (pt ! nat p ! nat n)]]"
proof -
  let ?row = "pt ! nat p"
  let ?pt1 = "pt[nat p := ?row[nat v := w]]"
  have np: "nat p < length pt" using p by simp
  have vn: "nat v \<noteq> nat n" using v(3) inv by auto
  have nn: "n < int (length ?row)" using n by simp
  have row1: "?pt1 ! nat p = ?row[nat v := w]" using np by simp
  have g: "get_entry ?pt1 p n = Some (?row ! nat n)"
    using p n nn vn by (simp add: get_entry_def py_get_nonneg)
  with ge have e: "e = ?row ! nat n" by simp
  have "set_entry ?pt1 p n (f e) = Some (?pt1[nat p := (?row[nat v := w])[nat n := f e]])"
    using p n nn by (simp add: set_entry_def py_get_nonneg py_set_nonneg)
  with se have "pt' = ?pt1[nat p := (?row[nat v := w])[nat n := f e]]" by simp
  then show ?thesis using e by simp
qed

lemma install_after_alloc:
  assumes p: "0 \<le> p" "p < int (length pt)"
    and n: "0 \<le> n" "nat n < length (pt ! nat p)"
    and ge: "get_entry pt p n = Some e"
    and se: "set_entry pt p n (f e) = Some pt'"
  shows "pt' = pt[nat p := (pt ! nat p)[nat n := f (pt ! nat p ! nat n)]]"
proof -
  have nn: "n < int (length (pt ! nat p))" using n by simp
  have "get_entry pt p n = Some (pt ! nat p ! nat n)"
    using p n nn by (simp add: get_entry_def py_get_nonneg)
  with ge have e: "e = pt ! nat p ! nat n" by simp
  have "set_entry pt p n (f e) = Some (pt[nat p := (pt ! nat p)[nat n := f e]])"
    using p n nn by (simp add: set_entry_def py_get_nonneg py_set_nonneg)
  with se e show ?thesis by simp
qed

lemma resident_pagesD:
  "v \<in> set (resident_pages row k) \<Longrightarrow> 0 \<le> v \<and> v < k \<and> valid (row ! nat v)"
  by (simp add: resident_pages_def py_range_set)

lemma handle_page_fault_evicting:
  assumes p: "0 \<le> p" "p < int (length (processes st))"
             "length (page_table st) = length (processes st)"
    and nosh: "\<not> (enable_shared_memory st \<and> n \<in> shared_page_numbers st)
               \<or> find_sharer (page_table st) (enumerate (processes st)) p n = Some None"
    and n: "0 \<le> n" "n < m (processes st ! nat p)"
           "m (processes st ! nat p) \<le> int (length (page_table st ! nat p))"
    and inv: "\<not> valid (page_table st ! nat p ! nat n)"
    and c: "free_frames st = [] \<or> allocount (processes st ! nat p) \<le> usecount (processes st ! nat p)"
    and hf: "handle_page_fault st p n = Some (fr, st')"
  shows "free_frames st' = free_frames st" "processes st' = processes st"
    "x \<in> set (resident_pages (page_table st ! nat p) (m (processes st ! nat p))) \<Longrightarrow>
     -1 < time (page_table st ! nat p ! nat x) \<Longrightarrow>
     time (page_table st ! nat p ! nat x) < sys_maxsize \<Longrightarrow>
     frame (page_table st ! nat p ! nat x) < sys_maxsize \<Longrightarrow>
     frequency (page_table st ! nat p ! nat x) < sys_maxsize \<Longrightarrow>
     \<exists>v. chosen_victim (algorithm st) (page_table st ! nat p) (m (processes st ! nat p)) v \<and>
         fr = frame (page_table st ! nat p ! nat v) \<and>
         page_table st' = (page_table st)[nat p := (page_table st ! nat p)
            [nat v := (page_table st ! nat p ! nat v)\<lparr>valid := False\<rparr>,
             nat n := private_entry (page_table st ! nat p ! nat n) fr (timestamp st)]]"
proof -
  let ?ps = "processes st" and ?pt = "page_table st"
  let ?pr = "?ps ! nat p" and ?row = "?pt ! nat p"
  have gp: "py_get ?ps p = Some ?pr" using p by (simp add: py_get_nonneg)
  have ai: "allocate_and_install st p n = Some (fr, st')"
    using hf nosh gp by (auto simp: handle_page_fault_def split: if_splits)
  have nl: "nat n < length ?row" using n by linarith
  from allocate_and_install_evict[OF gp _ ai] c obtain st1 e where
    ev: "evict_page st p = Some (fr, st1)"
    and ge: "get_entry (page_table st1) p n = Some e"
    and se: "set_entry (page_table st1) p n (private_entry e fr (timestamp st)) = Some (page_table st')"
    and fr: "free_frames st' = free_frames st" "processes st' = processes st"
    by auto
  show "free_frames st' = free_frames st" "processes st' = processes st" by (rule fr)+
  assume x: "x \<in> set (resident_pages ?row (m ?pr))"
    and b: "-1 < time (?row ! nat x)" "time (?row ! nat x) < sys_maxsize"
      "frame (?row ! nat x) < sys_maxsize" "frequency (?row ! nat x) < sys_maxsize"
  from evict_page_victim[OF p n(3) x b] obtain v where
    cv: "chosen_victim (algorithm st) ?row (m ?pr) v"
    and ev': "evict_page st p =
          Some (frame (?row ! nat v),
                st\<lparr>page_table := ?pt[nat p := ?row[nat v := (?row ! nat v)\<lparr>valid := False\<rparr>]],
                   tlb := tlb_invalidate_page (tlb st) p v\<rparr>)"
    by blast
  from ev ev' have f: "fr = frame (?row ! nat v)"
    and st1: "st1 = st\<lparr>page_table := ?pt[nat p := ?row[nat v := (?row ! nat v)\<lparr>valid := False\<rparr>]],
                   tlb := tlb_invalidate_page (tlb st) p v\<rparr>"
    by simp_all
  have pt1: "page_table st1 = ?pt[nat p := ?row[nat v := (?row ! nat v)\<lparr>valid := False\<rparr>]]"
    by (simp add: st1)
  have vres: "v \<in> set (resident_pages ?row (m ?pr))" using cv by (simp add: chosen_victim_def)
  note vr = resident_pagesD[OF vres]
  have vl: "nat v < length ?row" using vr n(3) by linarith
  have pl: "p < int (length ?pt)" using p by simp
  have "page_table st' = ?pt[nat p := ?row[nat v := (?row ! nat v)\<lparr>valid := False\<rparr>,
             nat n := private_entry (?row ! nat n) fr (timestamp st)]]"
    using vr
    by (intro install_after_evict[where f="\<lambda>e. private_entry e fr (timestamp st)",
          OF p(1) pl n(1) nl _ vl _ inv ge[unfolded pt1] se[unfolded pt1]]) simp_all
  with cv f show "\<exists>v. chosen_victim (algorithm st) ?row (m ?pr) v \<and>
         fr = frame (?row ! nat v) \<and>
         page_table st' = ?pt[nat p := ?row
            [nat v := (?row ! nat v)\<lparr>valid := False\<rparr>,
             nat n := private_entry (?row ! nat n) fr (timestamp st)]]"
    by blast
qed

lemma handle_page_fault_allocating:
  assumes p: "0 \<le> p" "p < int (length (processes st))"
             "length (page_table st) = length (processes st)"
    and nosh: "\<not> (enable_shared_memory st \<and> n \<in> shared_page_numbers st)
               \<or> find_sharer (page_table st) (enumerate (processes st)) p n = Some None"
    and n: "0 \<le> n" "n < m (processes st ! nat p)"
           "m (processes st ! nat p) \<le> int (length (page_table st ! nat p))"
    and c: "\<not> (free_frames st = [] \<or> allocount (processes st ! nat p) \<le> usecount (processes st ! nat p))"
    and hf: "handle_page_fault st p n = Some (fr, st')"
  shows "fr = last (free_frames st) \<and> free_frames st' = butlast (free_frames st) \<and>
         processes st' = (processes st)[nat p := (processes st ! nat p)
                            \<lparr>usecount := usecount (processes st ! nat p) + 1\<rparr>] \<and>
         page_table st' = (page_table st)[nat p := (page_table st ! nat p)
            [nat n := private_entry (page_table st ! nat p ! nat n) fr (timestamp st)]]"
proof -
  let ?ps = "processes st" and ?pt = "page_table st"
  let ?pr = "?ps ! nat p" and ?row = "?pt ! nat p"
  have gp: "py_get ?ps p = Some ?pr" using p by (simp add: py_get_nonneg)
  have ai: "allocate_and_install st p n = Some (fr, st')"
    using hf nosh gp by (auto simp: handle_page_fault_def split: if_splits)
  have nl: "nat n < length ?row" using n by linarith
  have pl: "p < int (length ?pt)" using p by simp
  from allocate_and_install_alloc[OF gp _ ai] c obtain e where
    a: "fr = last (free_frames st)" "free_frames st' = butlast (free_frames st)"
       "py_set ?ps p (?pr\<lparr>usecount := usecount ?pr + 1\<rparr>) = Some (processes st')"
       "get_entry ?pt p n = Some e"
       "set_entry ?pt p n (private_entry e fr (timestamp st)) = Some (page_table st')"
    by (auto simp: not_le)
  have ps: "processes st' = ?ps[nat p := ?pr\<lparr>usecount := usecount ?pr + 1\<rparr>]"
    using a(3) p by (simp add: py_set_nonneg)
  have "page_table st' = ?pt[nat p := ?row[nat n := private_entry (?row ! nat n) fr (timestamp st)]]"
    by (rule install_after_alloc[where f="\<lambda>e. private_entry e fr (timestamp st)",
          OF p(1) pl n(1) nl a(4) a(5)])
  with a(1,2) ps show ?thesis by simp
qed

lemma handle_page_fault_basic_evicting:
  assumes p: "0 \<le> p" "p < int (length (processes st))"
             "length (page_table st) = length (processes st)"
    and n: "0 \<le> n" "n < m (processes st ! nat p)"
           "m (processes st ! nat p) \<le> int (length (page_table st ! nat p))"
    and inv: "\<not> valid (page_table st ! nat p ! nat n)"
    and c: "free_frames st = [] \<or> allocount (processes st ! nat p) \<le> usecount (processes st ! nat p)"
    and hf: "handle_page_fault_basic st p n = Some (fr, st')"
  shows "free_frames st' = free_frames st" "processes st' = processes st"
    "x \<in> set (resident_pages (page_table st ! nat p) (m (processes st ! nat p))) \<Longrightarrow>
     -1 < time (page_table st ! nat p ! nat x) \<Longrightarrow>
     time (page_table st ! nat p ! nat x) < sys_maxsize \<Longrightarrow>
     frame (page_table st ! nat p ! nat x) < sys_maxsize \<Longrightarrow>
     frequency (page_table st ! nat p ! nat x) < sys_maxsize \<Longrightarrow>
     \<exists>v. chosen_victim (if algorithm st = MRU then LRU else algorithm st) (page_table st ! nat p) (m (processes st ! nat p)) v \<and>
         fr = frame (page_table st ! nat p ! nat v) \<and>
         page_table st' = (page_table st)[nat p := (page_table st ! nat p)
            [nat v := (page_table st ! nat p ! nat v)\<lparr>valid := False\<rparr>,
             nat n := (page_table st ! nat p ! nat n)\<lparr>frame := fr, valid := True, time := timestamp st, frequency := 1\<rparr>]]"
proof -
  let ?ps = "processes st" and ?pt = "page_table st"
  let ?pr = "?ps ! nat p" and ?row = "?pt ! nat p"
  have gp: "py_get ?ps p = Some ?pr" using p by (simp add: py_get_nonneg)
  have nl: "nat n < length ?row" using n by linarith
  from handle_page_fault_basic_evict[OF gp _ hf] c obtain st1 e where
    ev: "evict_page_basic st p = Some (fr, st1)"
    and ge: "get_entry (page_table st1) p n = Some e"
    and se: "set_entry (page_table st1) p n (e\<lparr>frame := fr, valid := True, time := timestamp st, frequency := 1\<rparr>) = Some (page_table st')"
    and fr: "free_frames st' = free_frames st" "processes st' = processes st"
    by auto
  show "free_frames st' = free_frames st" "processes st' = processes st" by (rule fr)+
  assume x: "x \<in> set (resident_pages ?row (m ?pr))"
    and b: "-1 < time (?row ! nat x)" "time (?row ! nat x) < sys_maxsize"
      "frame (?row ! nat x) < sys_maxsize" "frequency (?row ! nat x) < sys_maxsize"
  from evict_page_basic_victim[OF p n(3) x b] obtain v where
    cv: "chosen_victim (if algorithm st = MRU then LRU else algorithm st) ?row (m ?pr) v"
    and ev': "evict_page_basic st p =
          Some (frame (?row ! nat v),
                st\<lparr>page_table := ?pt[nat p := ?row[nat v := (?row ! nat v)\<lparr>valid := False\<rparr>]],
                   tlb := tlb_invalidate_page (tlb st) p v\<rparr>)"
    by blast
  from ev ev' have f: "fr = frame (?row ! nat v)"
    and st1: "st1 = st\<lparr>page_table := ?pt[nat p := ?row[nat v := (?row ! nat v)\<lparr>valid := False\<rparr>]],
                   tlb := tlb_invalidate_page (tlb st) p v\<rparr>"
    by simp_all
  have pt1: "page_table st1 = ?pt[nat p := ?row[nat v := (?row ! nat v)\<lparr>valid := False\<rparr>]]"
    by (simp add: st1)
  have vres: "v \<in> set (resident_pages ?row (m ?pr))" using cv by (simp add: chosen_victim_def)
  note vr = resident_pagesD[OF vres]
  have vl: "nat v < length ?row" using vr n(3) by linarith
  have pl: "p < int (length ?pt)" using p by simp
  have "page_table st' = ?pt[nat p := ?row[nat v := (?row ! nat v)\<lparr>valid := False\<rparr>,
             nat n := (?row ! nat n)\<lparr>frame := fr, valid := True, time := timestamp st, frequency := 1\<rparr>]]"
    using vr
    by (intro install_after_evict[where f="\<lambda>e. e\<lparr>frame := fr, valid := True, time := timestamp st, frequency := 1\<rparr>",
          OF p(1) pl n(1) nl _ vl _ inv ge[unfolded pt1] se[unfolded pt1]]) simp_all
  with cv f show "\<exists>v. chosen_victim (if algorithm st = MRU then LRU else algorithm st) ?row (m ?pr) v \<and>
         fr = frame (?row ! nat v) \<and>
         page_table st' = ?pt[nat p := ?row
            [nat v := (?row ! nat v)\<lparr>valid := False\<rparr>,
             nat n := (?row ! nat n)\<lparr>frame := fr, valid := True, time := timestamp st, frequency := 1\<rparr>]]"
    by blast
qed

lemma handle_page_fault_basic_allocating:
  assumes p: "0 \<le> p" "p < int (length (processes st))"
             "length (page_table st) = length (processes st)"
    and n: "0 \<le> n" "n < m (processes st ! nat p)"
           "m (processes st ! nat p) \<le> int (length (page_table st ! nat p))"
    and c: "\<not> (free_frames st = [] \<or> allocount (processes st ! nat p) \<le> usecount (processes st ! nat p))"
    and hf: "handle_page_fault_basic st p n = Some (fr, st')"
  shows "fr = last (free_frames st) \<and> free_frames st' = butlast (free_frames st) \<and>
         processes st' = (processes st)[nat p := (processes st ! nat p)
                            \<lparr>usecount := usecount (processes st ! nat p) + 1\<rparr>] \<and>
         page_table st' = (page_table st)[nat p := (page_table st ! nat p)
            [nat n := (page_table st ! nat p ! nat n)\<lparr>frame := fr, valid := True, time := timestamp st, frequency := 1\<rparr>]]"
proof -
  let ?ps = "processes st" and ?pt = "page_table st"
  let ?pr = "?ps ! nat p" and ?row = "?pt ! nat p"
  have gp: "py_get ?ps p = Some ?pr" using p by (simp add: py_get_nonneg)
  have nl: "nat n < length ?row" using n by linarith
  have pl: "p < int (length ?pt)" using p by simp
  from handle_page_fault_basic_alloc[OF gp _ hf] c obtain e where
    a: "fr = last (free_frames st)" "free_frames st' = butlast (free_frames st)"
       "py_set ?ps p (?pr\<lparr>usecount := usecount ?pr + 1\<rparr>) = Some (processes st')"
       "get_entry ?pt p n = Some e"
       "set_entry ?pt p n (e\<lparr>frame := fr, valid := True, time := timestamp st, frequency := 1\<rparr>) = Some (page_table st')"
    by (auto simp: not_le)
  have ps: "processes st' = ?ps[nat p := ?pr\<lparr>usecount := usecount ?pr + 1\<rparr>]"
    using a(3) p by (simp add: py_set_nonneg)
  have "page_table st' = ?pt[nat p := ?row[nat n := (?row ! nat n)\<lparr>frame := fr, valid := True, time := timestamp st, frequency := 1\<rparr>]]"
    by (rule install_after_alloc[where f="\<lambda>e. e\<lparr>frame := fr, valid := True, time := timestamp st, frequency := 1\<rparr>",
          OF p(1) pl n(1) nl a(4) a(5)])
  with a(1,2) ps show ?thesis by simp
qed

section \<open>Well-formed states stay well-formed\<close>

lemma py_index_in_frames:
  "xs \<noteq> [] \<Longrightarrow> -1 \<le> i \<Longrightarrow> i < int (length xs) \<Longrightarrow> \<exists>j. py_index xs i = Some j \<and> j < length xs"
proof -
  assume a: "xs \<noteq> []" "-1 \<le> i" "i < int (length xs)"
  have l: "1 \<le> int (length xs)" using a(1) by (cases xs) auto
  show ?thesis
  proof (cases "i < 0")
    case True
    then have "0 \<le> int (length xs) + i" "int (length xs) + i < int (length xs)"
      using a(2) l by linarith+
    then show ?thesis using True by (simp add: py_index_def Let_def)
  next
    case False
    then show ?thesis using a(3) by (simp add: py_index_def Let_def)
  qed
qed

lemma py_set_in_frames:
  "xs \<noteq> [] \<Longrightarrow> -1 \<le> i \<Longrightarrow> i < int (length xs) \<Longrightarrow>
     \<exists>ys. py_set xs i v = Some ys \<and> length ys = length xs"
  using py_index_in_frames[of xs i] by (auto simp: py_set_def)

lemma rows_ok_update:
  assumes "rows_ok ps pt f" "-1 \<le> frame e" "frame e < int f"
  shows "rows_ok ps (pt[i := (pt ! i)[j := e]]) f"
proof -
  have "\<forall>x \<in> set ((pt ! i)[j := e]). -1 \<le> frame x \<and> frame x < int f" if "i < length ps"
    using assms that set_update_subset_insert[of "pt ! i" j e]
    by (auto simp: rows_ok_def)
  moreover have "pt[i := (pt ! i)[j := e]] ! ia = (if ia = i then (pt ! i)[j := e] else pt ! ia)"
    if "ia < length ps" for ia
    using that assms(1) by (simp add: rows_ok_def nth_list_update)
  ultimately show ?thesis using assms(1)
    unfolding rows_ok_def by (auto split: if_splits)
qed

lemma rows_ok_update_same_frame:
  assumes "rows_ok ps pt f" "i < length ps" "j < length (pt ! i)" "frame e = frame (pt ! i ! j)"
  shows "rows_ok ps (pt[i := (pt ! i)[j := e]]) f"
proof -
  have "pt ! i ! j \<in> set (pt ! i)" using assms(3) by simp
  then have "-1 \<le> frame e" "frame e < int f" using assms by (auto simp: rows_ok_def)
  with assms(1) show ?thesis by (rule rows_ok_update)
qed

lemma rows_ok_processes:
  assumes "rows_ok ps pt f" "length ps' = length ps" "\<forall>i < length ps. m (ps' ! i) = m (ps ! i)"
  shows "rows_ok ps' pt f"
  using assms by (auto simp: rows_ok_def)

lemma rows_ok_entry:
  "rows_ok ps pt f \<Longrightarrow> i < length ps \<Longrightarrow> j < length (pt ! i) \<Longrightarrow>
     -1 \<le> frame (pt ! i ! j) \<and> frame (pt ! i ! j) < int f"
  by (auto simp: rows_ok_def)


lemma wf_mmuD:
  assumes "wf_mmu st"
  shows "rows_ok (processes st) (page_table st) (length (physical_memory st))"
    and "frames_ok (free_frames st) (length (physical_memory st))"
    and "length (page_fault_counts st) = length (processes st)"
    and "tlb st \<noteq> []" and "physical_memory st \<noteq> []"
    and "length (page_table st) = length (processes st)"
  using assms by (simp_all add: wf_mmu_def rows_ok_def)

lemma wf_row_length:
  "wf_mmu st \<Longrightarrow> i < length (processes st) \<Longrightarrow> m (processes st ! i) \<le> int (length (page_table st ! i))"
  by (simp add: wf_mmu_def rows_ok_def)

lemma free_loop_wf:
  assumes "0 \<le> p" "p < int (length (processes st))"
  shows "wf_mmu st \<Longrightarrow> \<forall>n \<in> set ns. 0 \<le> n \<and> n < int (length (page_table st ! nat p)) \<Longrightarrow>
     \<exists>st'. free_loop p ns st = Some st' \<and> wf_mmu st' \<and> processes st' = processes st \<and>
        tlb st' = tlb st \<and> timestamp st' = timestamp st \<and>
        (\<forall>i. i \<noteq> nat p \<longrightarrow> page_table st' ! i = page_table st ! i)"
  using assms
proof (induction ns arbitrary: st)
  case Nil
  then show ?case by simp
next
  case (Cons n ns)
  let ?pt = "page_table st" and ?P = "nat p" and ?N = "nat n"
  let ?e = "?pt ! ?P ! ?N"
  note wf = wf_mmuD[OF Cons.prems(1)]
  have P: "?P < length ?pt" using Cons.prems(3,4) wf(6) by simp
  have n: "0 \<le> n" "n < int (length (?pt ! ?P))" using Cons.prems(2) by simp_all
  have N: "?N < length (?pt ! ?P)" using n by simp
  have ge: "get_entry ?pt p n = Some ?e"
    using Cons.prems(3,4) wf(6) n by (simp add: get_entry_def py_get_nonneg)
  show ?case
  proof (cases "valid ?e")
    case False
    have "free_loop p (n # ns) st = free_loop p ns st" using ge False by simp
    moreover have "\<forall>n \<in> set ns. 0 \<le> n \<and> n < int (length (page_table st ! nat p))"
      using Cons.prems(2) by simp
    ultimately show ?thesis using Cons.IH[OF Cons.prems(1) _ Cons.prems(3,4)] by simp
  next
    case True
    have fr: "-1 \<le> frame ?e" "frame ?e < int (length (physical_memory st))"
      using rows_ok_entry[OF wf(1) _ N] P wf(6) by simp_all
    from py_set_in_frames[OF wf(5) fr] obtain pm' where
      pm: "py_set (physical_memory st) (frame ?e) (-1) = Some pm'"
          "length pm' = length (physical_memory st)" by blast
    define pt' where "pt' = ?pt[?P := (?pt ! ?P)[?N := ?e\<lparr>valid := False\<rparr>]]"
    have se: "set_entry ?pt p n (?e\<lparr>valid := False\<rparr>) = Some pt'"
      using Cons.prems(3,4) wf(6) n by (simp add: set_entry_def py_get_nonneg py_set_nonneg pt'_def)
    define st2 where "st2 = st\<lparr>free_frames := deallocate (free_frames st) (frame ?e),
                               physical_memory := pm', page_table := pt'\<rparr>"
    have step: "free_loop p (n # ns) st = free_loop p ns st2"
      using ge True pm(1) se by (simp add: st2_def)
    have r2: "rows_ok (processes st2) (page_table st2) (length (physical_memory st2))"
      using rows_ok_update_same_frame[OF wf(1) _ N, of "?e\<lparr>valid := False\<rparr>"] P wf(6) pm(2)
      by (simp add: st2_def pt'_def)
    have f2: "frames_ok (free_frames st2) (length (physical_memory st2))"
      using wf(2) fr pm(2) by (simp add: st2_def frames_ok_def deallocate_def)
    have wf2: "wf_mmu st2"
      unfolding wf_mmu_def using r2 f2 wf(3,4,5) pm(2) by (auto simp: st2_def)
    have len2: "\<forall>n \<in> set ns. 0 \<le> n \<and> n < int (length (page_table st2 ! nat p))"
      using Cons.prems(2) P by (simp add: st2_def pt'_def)
    have p2: "p < int (length (processes st2))" using Cons.prems(4) by (simp add: st2_def)
    from Cons.IH[OF wf2 len2 Cons.prems(3) p2] obtain st' where
      r: "free_loop p ns st2 = Some st'" "wf_mmu st'" "processes st' = processes st2"
         "tlb st' = tlb st2" "timestamp st' = timestamp st2"
         "\<forall>i. i \<noteq> nat p \<longrightarrow> page_table st' ! i = page_table st2 ! i" by blast
    have "\<forall>i. i \<noteq> nat p \<longrightarrow> page_table st' ! i = page_table st ! i"
      using r(6) by (simp add: st2_def pt'_def)
    with r step show ?thesis by (simp add: st2_def)
  qed
qed

lemma free_process_frames_wf:
  assumes "wf_mmu st" "0 \<le> p" "p < int (length (processes st))"
  shows "\<exists>st'. free_process_frames st p = Some st' \<and> wf_mmu st' \<and>
           processes st' = (processes st)[nat p := (processes st ! nat p)\<lparr>usecount := 0\<rparr>] \<and>
           timestamp st' = timestamp st \<and>
           (\<forall>i. i \<noteq> nat p \<longrightarrow> page_table st' ! i = page_table st ! i)"
proof -
  let ?pr = "processes st ! nat p"
  have gp: "py_get (processes st) p = Some ?pr" using assms by (simp add: py_get_nonneg)
  have rng: "\<forall>n \<in> set (py_range (m ?pr)). 0 \<le> n \<and> n < int (length (page_table st ! nat p))"
  proof -
    have "nat p < length (processes st)" using assms(2,3) by simp
    from wf_row_length[OF assms(1) this] show ?thesis by (auto simp: py_range_set)
  qed
  from free_loop_wf[OF assms(2,3,1) rng] obtain st1 where
    r: "free_loop p (py_range (m ?pr)) st = Some st1" "wf_mmu st1" "processes st1 = processes st"
       "tlb st1 = tlb st" "timestamp st1 = timestamp st"
       "\<forall>i. i \<noteq> nat p \<longrightarrow> page_table st1 ! i = page_table st ! i" by blast
  define ps' where "ps' = (processes st)[nat p := ?pr\<lparr>usecount := 0\<rparr>]"
  have sp: "py_set (processes st1) p (?pr\<lparr>usecount := 0\<rparr>) = Some ps'"
    using assms(2,3) r(3) by (simp add: py_set_nonneg ps'_def)
  define st' where "st' = st1\<lparr>tlb := tlb_invalidate_process (tlb st1) p, processes := ps'\<rparr>"
  have res: "free_process_frames st p = Some st'"
    using gp r(1) sp by (simp add: free_process_frames_def st'_def)
  note wf1 = wf_mmuD[OF r(2)]
  have rows: "rows_ok ps' (page_table st1) (length (physical_memory st1))"
    by (rule rows_ok_processes[OF wf1(1)]) (use assms(2,3) in \<open>auto simp: ps'_def r(3) nth_list_update\<close>)
  have tl: "tlb_invalidate_process (tlb st1) p \<noteq> []"
    using wf1(4) by (simp add: tlb_invalidate_process_def)
  have wf': "wf_mmu st'"
    unfolding wf_mmu_def using rows wf1(2,3,5) tl by (simp add: st'_def ps'_def r(3))
  show ?thesis
    using res wf' r(5,6) by (auto simp: st'_def ps'_def)
qed

lemma update_tlb_time_length [simp]: "length (update_tlb_time es p n ts) = length es"
  by (induction es) auto

lemma update_tlb_time_nonempty: "es \<noteq> [] \<Longrightarrow> update_tlb_time es p n ts \<noteq> []"
  by (cases es) auto

lemma update_tlb_nonempty:
  assumes "update_tlb es p n fr ts = Some es'"
  shows "es' \<noteq> []"
proof -
  have "es \<noteq> []" using assms by (auto simp: update_tlb_def)
  moreover have "length es' = length es" using assms by (rule update_tlb_length)
  ultimately show ?thesis by auto
qed

lemma handle_page_request_basic_wf:
  assumes wf: "wf_mmu st" and p: "0 \<le> p" "p < int (length (processes st))"
  shows "\<exists>fr ev st'. handle_page_request_basic st p n = Some (fr, ev, st') \<and> wf_mmu st' \<and>
           processes st' = processes st \<and> timestamp st' = timestamp st + 1 \<and>
           (\<forall>i. i \<noteq> nat p \<longrightarrow> page_table st' ! i = page_table st ! i) \<and>
           (\<forall>j. valid (page_table st' ! nat p ! j) = valid (page_table st ! nat p ! j)) \<and>
           (ev = InvalidReference \<or> ev = TlbHit \<or> ev = PageHit \<or> ev = PageFault) \<and>
           (ev = InvalidReference \<longleftrightarrow> n < 0 \<or> m (processes st ! nat p) \<le> n) \<and>
           (ev = InvalidReference \<longrightarrow> fr = -2 \<and> st' = st\<lparr>timestamp := timestamp st + 1\<rparr>) \<and>
           (ev = PageFault \<longrightarrow> \<not> valid (page_table st ! nat p ! nat n)) \<and>
           (ev = PageFault \<longrightarrow> fr = -1) \<and>
           (0 \<le> n \<and> n < m (processes st ! nat p) \<and> valid (page_table st ! nat p ! nat n)
              \<longrightarrow> ev = TlbHit \<or> ev = PageHit)"
proof -
  let ?pr = "processes st ! nat p" and ?pt = "page_table st" and ?P = "nat p" and ?N = "nat n"
  let ?ts = "timestamp st + 1"
  note w = wf_mmuD[OF wf]
  have P: "?P < length (processes st)" using p by simp
  have gp: "py_get (processes st) p = Some ?pr" using p by (simp add: py_get_nonneg)
  show ?thesis
  proof (cases "n < 0 \<or> m ?pr \<le> n")
    case True
    have r: "handle_page_request_basic st p n = Some (-2, InvalidReference, st\<lparr>timestamp := ?ts\<rparr>)"
      using True gp by (auto simp: handle_page_request_basic_def Let_def)
    have "wf_mmu (st\<lparr>timestamp := ?ts\<rparr>)" using wf by (simp add: wf_mmu_def)
    with r True show ?thesis by auto
  next
    case False
    then have n: "0 \<le> n" "n < m ?pr" by auto
    have N: "?N < length (?pt ! ?P)" using wf_row_length[OF wf P] n by linarith
    obtain f h where ct: "check_tlb (tlb st) p n = (f, h)" by force
    show ?thesis
    proof (cases h)
      case True
      define st' where "st' = st\<lparr>timestamp := ?ts, tlb_hit_count := tlb_hit_count st + 1,
                        tlb := update_tlb_time (tlb st) p n ?ts\<rparr>"
      have r: "handle_page_request_basic st p n = Some (f, TlbHit, st')"
        using False gp ct True by (simp add: handle_page_request_basic_def Let_def st'_def)
      have "wf_mmu st'" using wf w(4) by (simp add: wf_mmu_def st'_def update_tlb_time_nonempty)
      with r False show ?thesis by (simp add: st'_def)
    next
      case nohit: False
      let ?e = "?pt ! ?P ! ?N"
      have ge: "get_entry ?pt p n = Some ?e"
        using p w(6) n N by (simp add: get_entry_def py_get_nonneg)
      show ?thesis
      proof (cases "valid ?e")
        case True
        define e' where "e' = ?e\<lparr>time := ?ts, frequency := frequency ?e + 1\<rparr>"
        define pt' where "pt' = ?pt[?P := (?pt ! ?P)[?N := e']]"
        have se: "set_entry ?pt p n e' = Some pt'"
          using p w(6) n N by (simp add: set_entry_def py_get_nonneg py_set_nonneg pt'_def)
        from update_tlb_Some[OF w(4), of p n "frame ?e" ?ts] obtain tlb' where
          t: "update_tlb (tlb st) p n (frame ?e) ?ts = Some tlb'" by blast
        define st' where "st' = st\<lparr>timestamp := ?ts, page_hit_count := page_hit_count st + 1,
                        page_table := pt', tlb := tlb'\<rparr>"
        have r: "handle_page_request_basic st p n = Some (frame ?e, PageHit, st')"
          using False gp ct nohit ge True se t
          by (simp add: handle_page_request_basic_def Let_def st'_def e'_def)
        have rows: "rows_ok (processes st) pt' (length (physical_memory st))"
          unfolding pt'_def
          by (rule rows_ok_update_same_frame[OF w(1) P N]) (simp add: e'_def)
        have wf': "wf_mmu st'"
          unfolding wf_mmu_def using rows w(2,3,5) update_tlb_nonempty[OF t] by (simp add: st'_def)
        have oth: "\<forall>i. i \<noteq> ?P \<longrightarrow> pt' ! i = ?pt ! i" by (simp add: pt'_def)
        have val: "valid (pt' ! ?P ! j) = valid (?pt ! ?P ! j)" for j
          using P w(6) N True by (cases "j = ?N") (simp_all add: pt'_def e'_def)
        show ?thesis using r wf' oth val False by (simp add: st'_def)
      next
        case inval: False
        define cnts where "cnts = (page_fault_counts st)[?P := page_fault_counts st ! ?P + 1]"
        have cf: "count_fault (page_fault_counts st) p = Some cnts"
          using p w(3) by (simp add: count_fault_def cnts_def)
        define st' where "st' = st\<lparr>timestamp := ?ts, page_fault_counts := cnts\<rparr>"
        have r: "handle_page_request_basic st p n = Some (-1, PageFault, st')"
          using False gp ct nohit ge inval cf
          by (simp add: handle_page_request_basic_def Let_def st'_def)
        have wf': "wf_mmu st'" using wf by (simp add: wf_mmu_def st'_def cnts_def)
        show ?thesis using r wf' inval False by (simp add: st'_def)
      qed
    qed
  qed
qed


lemma scan_victim_total:
  "\<forall>n \<in> set ns. 0 \<le> n \<and> n < int (length row) \<Longrightarrow>
     \<exists>b v. scan_victim key better row ns best vic = Some (b, v) \<and>
        (v = vic \<or> (0 \<le> v \<and> v < int (length row)))"
proof (induction ns arbitrary: best vic)
  case Nil
  then show ?case by simp
next
  case (Cons n ns)
  have get: "py_get row n = Some (row ! nat n)" using Cons.prems by (simp add: py_get_nonneg)
  have rng: "\<forall>n \<in> set ns. 0 \<le> n \<and> n < int (length row)" using Cons.prems by simp
  have nr: "0 \<le> n \<and> n < int (length row)" using Cons.prems by simp
  show ?case
  proof (cases "valid (row ! nat n) \<and> better (key (row ! nat n)) best")
    case True
    from Cons.IH[OF rng, of "key (row ! nat n)" n] nr True get show ?thesis by auto
  next
    case False
    from Cons.IH[OF rng, of best vic] False get show ?thesis by auto
  qed
qed

lemma tlb_invalidate_page_nonempty: "es \<noteq> [] \<Longrightarrow> tlb_invalidate_page es p v \<noteq> []"
  by (simp add: tlb_invalidate_page_def)

lemma evict_by_wf:
  assumes wf: "wf_mmu st" and p: "0 \<le> p" "p < int (length (processes st))"
    and ne: "page_table st ! nat p \<noteq> []"
  shows "\<exists>fr st1. evict_by key better init st p = Some (fr, st1) \<and> wf_mmu st1 \<and>
           -1 \<le> fr \<and> fr < int (length (physical_memory st)) \<and>
           processes st1 = processes st \<and> free_frames st1 = free_frames st \<and>
           physical_memory st1 = physical_memory st \<and> timestamp st1 = timestamp st \<and>
           (\<forall>i. i \<noteq> nat p \<longrightarrow> page_table st1 ! i = page_table st ! i)"
proof -
  let ?pr = "processes st ! nat p" and ?pt = "page_table st" and ?P = "nat p"
  let ?row = "?pt ! ?P"
  note w = wf_mmuD[OF wf]
  have P: "?P < length (processes st)" using p by simp
  have gp: "py_get (processes st) p = Some ?pr" using p by (simp add: py_get_nonneg)
  have gr: "py_get ?pt p = Some ?row" using p w(6) by (simp add: py_get_nonneg)
  have rng: "\<forall>n \<in> set (py_range (m ?pr)). 0 \<le> n \<and> n < int (length ?row)"
    using wf_row_length[OF wf P] by (auto simp: py_range_set)
  from scan_victim_total[OF rng, of key better init "-1"] obtain b v where
    sc: "scan_victim key better ?row (py_range (m ?pr)) init (-1) = Some (b, v)"
    and v: "v = -1 \<or> (0 \<le> v \<and> v < int (length ?row))" by blast
  have vr: "-1 \<le> v" "v < int (length ?row)" using v ne by auto
  from py_index_in_frames[OF ne vr] obtain j where
    j: "py_index ?row v = Some j" "j < length ?row" by blast
  let ?e = "?row ! j"
  have ge: "py_get ?row v = Some ?e" using j by (simp add: py_get_def)
  define pt' where "pt' = ?pt[?P := ?row[j := ?e\<lparr>valid := False\<rparr>]]"
  have se: "set_entry ?pt p v (?e\<lparr>valid := False\<rparr>) = Some pt'"
    using gr j p w(6) by (simp add: set_entry_def py_set_def py_index_nonneg pt'_def)
  define st1 where "st1 = st\<lparr>page_table := pt', tlb := tlb_invalidate_page (tlb st) p v\<rparr>"
  have r: "evict_by key better init st p = Some (frame ?e, st1)"
    using gp gr sc ge se by (simp add: evict_by_def st1_def)
  have rows: "rows_ok (processes st) pt' (length (physical_memory st))"
    unfolding pt'_def by (rule rows_ok_update_same_frame[OF w(1) P j(2)]) simp
  have wf1: "wf_mmu st1"
    unfolding wf_mmu_def using rows w(2,3,4,5)
    by (simp add: st1_def tlb_invalidate_page_nonempty)
  have fr: "-1 \<le> frame ?e" "frame ?e < int (length (physical_memory st))"
    using rows_ok_entry[OF w(1) P j(2)] by simp_all
  have oth: "\<forall>i. i \<noteq> ?P \<longrightarrow> pt' ! i = ?pt ! i" by (simp add: pt'_def)
  show ?thesis using r wf1 fr oth by (simp add: st1_def)
qed

lemma evict_page_basic_wf:
  assumes wf: "wf_mmu st" and p: "0 \<le> p" "p < int (length (processes st))"
    and ne: "page_table st ! nat p \<noteq> []"
  shows "\<exists>fr st1. evict_page_basic st p = Some (fr, st1) \<and> wf_mmu st1 \<and>
           -1 \<le> fr \<and> fr < int (length (physical_memory st)) \<and>
           processes st1 = processes st \<and> free_frames st1 = free_frames st \<and>
           physical_memory st1 = physical_memory st \<and> timestamp st1 = timestamp st \<and>
           (\<forall>i. i \<noteq> nat p \<longrightarrow> page_table st1 ! i = page_table st ! i)"
  unfolding evict_page_basic_def evict_lru_def evict_fifo_def evict_lfu_def
  using evict_by_wf[OF assms] by (simp split: if_splits)


lemma handle_page_fault_basic_wf:
  assumes wf: "wf_mmu st" and p: "0 \<le> p" "p < int (length (processes st))"
    and n: "0 \<le> n" "n < m (processes st ! nat p)"
  shows "\<exists>fr st'. handle_page_fault_basic st p n = Some (fr, st') \<and> wf_mmu st' \<and>
           valid (page_table st' ! nat p ! nat n) \<and> timestamp st' = timestamp st \<and>
           length (processes st') = length (processes st) \<and>
           (\<forall>i. i \<noteq> nat p \<longrightarrow> processes st' ! i = processes st ! i) \<and>
           processes st' ! nat p =
             (processes st ! nat p)\<lparr>usecount := usecount (processes st' ! nat p)\<rparr> \<and>
           (\<forall>i. i \<noteq> nat p \<longrightarrow> page_table st' ! i = page_table st ! i)"
proof -
  let ?ps = "processes st" and ?pt = "page_table st" and ?P = "nat p" and ?N = "nat n"
  let ?pr = "?ps ! ?P"
  let ?f = "length (physical_memory st)"
  note w = wf_mmuD[OF wf]
  have P: "?P < length ?ps" using p by simp
  have gp: "py_get ?ps p = Some ?pr" using p by (simp add: py_get_nonneg)
  have N0: "?N < length (?pt ! ?P)" using wf_row_length[OF wf P] n by linarith
  then have ne: "?pt ! ?P \<noteq> []" by auto
  let ?first = "(if free_frames st = [] \<or> usecount ?pr \<ge> allocount ?pr
          then evict_page_basic st p
          else (case allocate (free_frames st) of
                  (None, _) \<Rightarrow> None
                | (Some fr, frames') \<Rightarrow>
                    do {
                      ps' \<leftarrow> py_set ?ps p (?pr\<lparr>usecount := usecount ?pr + 1\<rparr>);
                      Some (fr, st\<lparr>free_frames := frames', processes := ps'\<rparr>)
                    }))"
  have first: "\<exists>fr st1. ?first = Some (fr, st1) \<and> wf_mmu st1 \<and>
           -1 \<le> fr \<and> fr < int ?f \<and> length (physical_memory st1) = ?f \<and>
           length (processes st1) = length ?ps \<and>
           (\<forall>i. i \<noteq> ?P \<longrightarrow> processes st1 ! i = ?ps ! i) \<and>
           processes st1 ! ?P = ?pr\<lparr>usecount := usecount (processes st1 ! ?P)\<rparr> \<and>
           timestamp st1 = timestamp st \<and>
           (\<forall>i. i \<noteq> ?P \<longrightarrow> page_table st1 ! i = ?pt ! i)"
  proof (cases "free_frames st = [] \<or> usecount ?pr \<ge> allocount ?pr")
    case True
    from evict_page_basic_wf[OF wf p ne] True show ?thesis by auto
  next
    case False
    then have fne: "free_frames st \<noteq> []" by simp
    define fr where "fr = last (free_frames st)"
    define ps' where "ps' = ?ps[?P := ?pr\<lparr>usecount := usecount ?pr + 1\<rparr>]"
    define st1 where "st1 = st\<lparr>free_frames := butlast (free_frames st), processes := ps'\<rparr>"
    have sp: "py_set ?ps p (?pr\<lparr>usecount := usecount ?pr + 1\<rparr>) = Some ps'"
      using p by (simp add: py_set_nonneg ps'_def)
    have r: "?first = Some (fr, st1)"
      using False fne sp by (simp add: allocate_def fr_def st1_def)
    have frr: "-1 \<le> fr" "fr < int ?f"
      using w(2) fne last_in_set[OF fne] by (auto simp: frames_ok_def fr_def)
    have rows: "rows_ok ps' ?pt ?f"
      by (rule rows_ok_processes[OF w(1)]) (use P in \<open>auto simp: ps'_def nth_list_update\<close>)
    have fo: "frames_ok (butlast (free_frames st)) ?f"
      using w(2) by (auto simp: frames_ok_def dest: in_set_butlastD)
    have wf1: "wf_mmu st1"
      unfolding wf_mmu_def using rows fo w(3,4,5) by (simp add: st1_def ps'_def)
    have pp: "processes st1 ! ?P = ?pr\<lparr>usecount := usecount (processes st1 ! ?P)\<rparr>"
      using P by (simp add: st1_def ps'_def)
    have po: "\<forall>i. i \<noteq> ?P \<longrightarrow> processes st1 ! i = ?ps ! i" by (simp add: st1_def ps'_def)
    show ?thesis using r wf1 frr pp po by (simp add: st1_def ps'_def)
  qed
  then obtain fr st1 where
    r1: "?first = Some (fr, st1)" and wf1: "wf_mmu st1"
    and frr: "-1 \<le> fr" "fr < int ?f" and lpm: "length (physical_memory st1) = ?f"
    and lps: "length (processes st1) = length ?ps"
    and po: "\<forall>i. i \<noteq> ?P \<longrightarrow> processes st1 ! i = ?ps ! i"
    and pp: "processes st1 ! ?P = ?pr\<lparr>usecount := usecount (processes st1 ! ?P)\<rparr>"
    and ts: "timestamp st1 = timestamp st"
    and ro: "\<forall>i. i \<noteq> ?P \<longrightarrow> page_table st1 ! i = ?pt ! i"
    by blast
  note w1 = wf_mmuD[OF wf1]
  have P1: "?P < length (processes st1)" using P lps by simp
  have m1: "m (processes st1 ! ?P) = m ?pr" by (subst pp) simp
  have N: "?N < length (page_table st1 ! ?P)"
    using wf_row_length[OF wf1 P1] n m1 by linarith
  let ?e = "page_table st1 ! ?P ! ?N"
  have ge: "get_entry (page_table st1) p n = Some ?e"
    using p w1(6) lps n N by (simp add: get_entry_def py_get_nonneg)
  define e' where "e' = ?e\<lparr>frame := fr, valid := True, time := timestamp st1, frequency := 1\<rparr>"
  define pt' where "pt' = (page_table st1)[?P := (page_table st1 ! ?P)[?N := e']]"
  have se: "set_entry (page_table st1) p n e' = Some pt'"
    using p w1(6) lps n N by (simp add: set_entry_def py_get_nonneg py_set_nonneg pt'_def)
  from py_set_in_frames[OF w1(5), of fr p] frr lpm obtain pm' where
    pm: "py_set (physical_memory st1) fr p = Some pm'" "length pm' = length (physical_memory st1)"
    by auto
  from update_tlb_Some[OF w1(4), of p n fr "timestamp st1"] obtain tlb' where
    t: "update_tlb (tlb st1) p n fr (timestamp st1) = Some tlb'" by blast
  define st' where "st' = st1\<lparr>page_table := pt', physical_memory := pm', tlb := tlb'\<rparr>"
  have r: "handle_page_fault_basic st p n = Some (fr, st')"
    unfolding handle_page_fault_basic_def
    using gp r1 ge se[unfolded e'_def] pm(1) t by (simp add: st'_def pt'_def e'_def)
  have rows: "rows_ok (processes st1) pt' (length (physical_memory st1))"
    unfolding pt'_def by (rule rows_ok_update[OF w1(1)]) (use frr lpm in \<open>simp_all add: e'_def\<close>)
  have wf': "wf_mmu st'"
    unfolding wf_mmu_def using rows w1(2,3,5) pm(2) update_tlb_nonempty[OF t]
    by (auto simp: st'_def)
  have val: "valid (page_table st' ! ?P ! ?N)"
    using P1 w1(6) N by (simp add: st'_def pt'_def e'_def)
  have ro': "\<forall>i. i \<noteq> ?P \<longrightarrow> page_table st' ! i = ?pt ! i"
    using ro by (simp add: st'_def pt'_def)
  show ?thesis
    using r wf' val ts lps po pp ro' by (simp add: st'_def)
qed

section \<open>The turns of the main loop\<close>

lemma filter_length_update_same:
  "i < length xs \<Longrightarrow> P y = P (xs ! i) \<Longrightarrow> length (filter P (xs[i := y])) = length (filter P xs)"
proof (induction xs arbitrary: i)
  case Nil
  then show ?case by simp
next
  case (Cons x xs)
  then show ?case by (cases i) auto
qed

lemma filter_length_update_new:
  "i < length xs \<Longrightarrow> \<not> P (xs ! i) \<Longrightarrow> P y \<Longrightarrow>
     length (filter P (xs[i := y])) = Suc (length (filter P xs))"
proof (induction xs arbitrary: i)
  case Nil
  then show ?case by simp
next
  case (Cons x xs)
  then show ?case by (cases i) auto
qed

lemma filter_length_lt:
  assumes "i < length xs" "\<not> P (xs ! i)"
  shows "length (filter P xs) < length xs"
proof -
  have "xs ! i \<in> set xs" using assms(1) by simp
  then show ?thesis using assms(2) by (meson length_filter_less)
qed


lemma list_eq_update:
  "length ys = length xs \<Longrightarrow> (\<forall>i. i \<noteq> j \<longrightarrow> ys ! i = xs ! i) \<Longrightarrow> ys = xs[j := ys ! j]"
proof (rule nth_equalityI)
  assume a: "length ys = length xs" "\<forall>i. i \<noteq> j \<longrightarrow> ys ! i = xs ! i"
  show "length ys = length (xs[j := ys ! j])" using a(1) by simp
  fix i assume "i < length ys"
  then show "ys ! i = xs[j := ys ! j] ! i" using a by (cases "i = j") simp_all
qed

lemma wf_implementorD:
  assumes "wf_implementor s"
  shows "wf_mmu (the_mmu s)"
    and "total_processes s = int (length (processes (the_mmu s)))"
    and "completed_count s = int (length (filter completed (processes (the_mmu s))))"
    and "distinct (ready_queue s)"
    and "\<forall>q \<in> set (ready_queue s). 0 \<le> q \<and> q < int (length (processes (the_mmu s))) \<and>
           \<not> completed (processes (the_mmu s) ! nat q)"
    and "\<forall>pr \<in> set (processes (the_mmu s)). 0 \<le> current_index pr"
  using assms by (simp_all add: wf_implementor_def)

text \<open>Replacing the MMU by one whose process list differs in one control block.\<close>

lemma wf_implementor_mmu:
  assumes wf: "wf_implementor s" and wf': "wf_mmu st'"
    and ps: "processes st' = (processes (the_mmu s))[i := pr']"
    and i: "i < length (processes (the_mmu s))"
    and c: "completed pr' = completed (processes (the_mmu s) ! i)" "0 \<le> current_index pr'"
  shows "wf_implementor (s\<lparr>the_mmu := st'\<rparr>)"
proof -
  let ?ps = "processes (the_mmu s)"
  note w = wf_implementorD[OF wf]
  have cnt: "length (filter completed (?ps[i := pr'])) = length (filter completed ?ps)"
    using i c(1) by (rule filter_length_update_same)
  have comp: "completed (?ps[i := pr'] ! j) = completed (?ps ! j)" if "j < length ?ps" for j
    using that c(1) by (cases "j = i") simp_all
  have cur: "\<forall>pr \<in> set (?ps[i := pr']). 0 \<le> current_index pr"
    using w(6) c(2) set_update_subset_insert[of ?ps i pr'] by auto
  have qs: "\<forall>q \<in> set (ready_queue s). 0 \<le> q \<and> q < int (length ?ps) \<and>
           \<not> completed (?ps[i := pr'] ! nat q)"
    using w(5) comp by auto
  show ?thesis
    unfolding wf_implementor_def using wf' w(2,3,4) cnt cur qs by (simp add: ps)
qed

lemma wf_implementor_mmu_same:
  assumes wf: "wf_implementor s" and wf': "wf_mmu st'"
    and ps: "processes st' = processes (the_mmu s)"
  shows "wf_implementor (s\<lparr>the_mmu := st'\<rparr>)"
  using wf_implementorD[OF wf] wf' unfolding wf_implementor_def by (simp add: ps)

lemma wf_implementor_steps [simp]:
  "wf_implementor (s\<lparr>steps := x\<rparr>) = wf_implementor s"
  by (simp add: wf_implementor_def)

lemma return_to_ready_queue_wf:
  assumes wf: "wf_implementor s"
    and q: "0 \<le> q" "q < int (length (processes (the_mmu s)))"
           "\<not> completed (processes (the_mmu s) ! nat q)" "q \<notin> set (ready_queue s)"
  shows "return_to_ready_queue s q = Some (s\<lparr>ready_queue := ready_queue s @ [q]\<rparr>)"
    and "wf_implementor (s\<lparr>ready_queue := ready_queue s @ [q]\<rparr>)"
proof -
  have gp: "py_get (processes (the_mmu s)) q = Some (processes (the_mmu s) ! nat q)"
    using q by (simp add: py_get_nonneg)
  show "return_to_ready_queue s q = Some (s\<lparr>ready_queue := ready_queue s @ [q]\<rparr>)"
    using gp q(3) by (simp add: return_to_ready_queue_def)
  show "wf_implementor (s\<lparr>ready_queue := ready_queue s @ [q]\<rparr>)"
    using wf_implementorD[OF wf] q unfolding wf_implementor_def by auto
qed

lemma handle_process_completion_wf:
  assumes wf: "wf_implementor s"
    and q: "0 \<le> q" "q < int (length (processes (the_mmu s)))"
           "\<not> completed (processes (the_mmu s) ! nat q)" "q \<notin> set (ready_queue s)"
  shows "\<exists>s'. handle_process_completion s q = Some s' \<and> wf_implementor s' \<and>
           ready_queue s' = ready_queue s \<and>
           processes (the_mmu s') =
             (processes (the_mmu s))[nat q := (processes (the_mmu s) ! nat q)
                                        \<lparr>usecount := 0, completed := True\<rparr>] \<and>
           (\<forall>i. i \<noteq> nat q \<longrightarrow> page_table (the_mmu s') ! i = page_table (the_mmu s) ! i) \<and>
           completed_count s' = completed_count s + 1 \<and>
           total_processes s' = total_processes s \<and>
           steps s' = steps s @ [SimulationStep (timestamp (the_mmu s)) q (-1) ProcessComplete (-1)]"
proof -
  let ?st = "the_mmu s"
  let ?ps = "processes ?st" and ?Q = "nat q"
  let ?pr = "?ps ! ?Q"
  note w = wf_implementorD[OF wf]
  have Q: "?Q < length ?ps" using q by simp
  from free_process_frames_wf[OF w(1) q(1,2)] obtain st' where
    f: "free_process_frames ?st q = Some st'" "wf_mmu st'"
       "processes st' = ?ps[?Q := ?pr\<lparr>usecount := 0\<rparr>]" "timestamp st' = timestamp ?st"
       "\<forall>i. i \<noteq> ?Q \<longrightarrow> page_table st' ! i = page_table ?st ! i" by blast
  define ps2 where "ps2 = ?ps[?Q := ?pr\<lparr>usecount := 0, completed := True\<rparr>]"
  have gp: "py_get (processes st') q = Some (?pr\<lparr>usecount := 0\<rparr>)"
    using q Q by (simp add: f(3) py_get_nonneg)
  have sp: "py_set (processes st') q (?pr\<lparr>usecount := 0, completed := True\<rparr>) = Some ps2"
    using q Q by (simp add: f(3) py_set_nonneg ps2_def)
  define st2 where "st2 = st'\<lparr>processes := ps2\<rparr>"
  define s1 where "s1 = s\<lparr>the_mmu := st2, completed_count := completed_count s + 1\<rparr>"
  have mk: "mark_process_complete (s\<lparr>the_mmu := st'\<rparr>) q = Some s1"
    using gp sp by (simp add: mark_process_complete_def s1_def st2_def)
  define s' where "s' = s1\<lparr>steps := steps s1 @ [create_step s1 q (-1) (-1) ProcessComplete]\<rparr>"
  have r: "handle_process_completion s q = Some s'"
    using f(1) mk by (simp add: handle_process_completion_def s'_def)
  note w' = wf_mmuD[OF f(2)]
  have rows: "rows_ok ps2 (page_table st') (length (physical_memory st'))"
    by (rule rows_ok_processes[OF w'(1)])
       (use Q in \<open>auto simp: ps2_def f(3) nth_list_update\<close>)
  have wf2: "wf_mmu st2"
    unfolding wf_mmu_def using rows w'(2,3,4,5) by (simp add: st2_def ps2_def f(3))
  have cnt: "length (filter completed ps2) = Suc (length (filter completed ?ps))"
    unfolding ps2_def using Q q(3) by (intro filter_length_update_new) simp_all
  have cur: "\<forall>pr \<in> set ps2. 0 \<le> current_index pr"
  proof
    fix pr assume "pr \<in> set ps2"
    then have "pr = ?pr\<lparr>usecount := 0, completed := True\<rparr> \<or> pr \<in> set ?ps"
      using set_update_subset_insert[of ?ps ?Q] by (auto simp: ps2_def)
    moreover have "0 \<le> current_index ?pr" using w(6) Q by simp
    ultimately show "0 \<le> current_index pr" using w(6) by auto
  qed
  have qs: "\<forall>x \<in> set (ready_queue s). 0 \<le> x \<and> x < int (length ps2) \<and> \<not> completed (ps2 ! nat x)"
  proof
    fix x assume x: "x \<in> set (ready_queue s)"
    then have xr: "0 \<le> x" "x < int (length ?ps)" "\<not> completed (?ps ! nat x)" using w(5) by auto
    have "x \<noteq> q" using x q(4) by auto
    then have "nat x \<noteq> ?Q" using xr(1) q(1) by auto
    then show "0 \<le> x \<and> x < int (length ps2) \<and> \<not> completed (ps2 ! nat x)"
      using xr by (simp add: ps2_def)
  qed
  have l2: "length ps2 = length ?ps" by (simp add: ps2_def)
  have wfs: "wf_implementor s'"
    unfolding wf_implementor_def
    using wf2 w(2,3,4) cnt cur qs l2 by (simp add: s'_def s1_def st2_def)
  have st: "steps s' = steps s @ [SimulationStep (timestamp ?st) q (-1) ProcessComplete (-1)]"
    by (simp add: s'_def s1_def st2_def create_step_def f(4))
  show ?thesis
    using r wfs st f(5) by (simp add: s'_def s1_def st2_def ps2_def)
qed

lemma loop_body_exhausted:
  assumes wf: "wf_implementor s"
    and q: "0 \<le> q" "q < int (length (processes (the_mmu s)))"
    and ex: "int (length (reference_string (processes (the_mmu s) ! nat q)))
               \<le> current_index (processes (the_mmu s) ! nat q)"
  shows "loop_body s q = handle_process_completion s q"
proof -
  have gp: "py_get (processes (the_mmu s)) q = Some (processes (the_mmu s) ! nat q)"
    using q by (simp add: py_get_nonneg)
  show ?thesis using gp ex by (simp add: loop_body_def)
qed

lemma loop_body_request:
  assumes wf: "wf_implementor s"
    and q: "0 \<le> q" "q < int (length (processes (the_mmu s)))"
    and ci: "current_index (processes (the_mmu s) ! nat q)
               < int (length (reference_string (processes (the_mmu s) ! nat q)))"
    and n: "n = reference_string (processes (the_mmu s) ! nat q)
                  ! nat (current_index (processes (the_mmu s) ! nat q))"
    and rq: "handle_page_request_basic (the_mmu s) q n = Some (fr, ev, st1)"
  shows "loop_body s q =
     (let s1 = s\<lparr>the_mmu := st1,
                  steps := steps s @ [SimulationStep (timestamp st1) q n ev fr]\<rparr>
      in if ev = InvalidReference then handle_process_completion s1 q
         else if ev = PageFault
         then do {
           (frame_number', st2) \<leftarrow> handle_page_fault_basic st1 q n;
           return_to_ready_queue
             (s1\<lparr>the_mmu := st2,
                  steps := steps s1 @ [SimulationStep (timestamp st2) q n PageFaultHandled frame_number']\<rparr>) q
         }
         else if ev = TlbHit \<or> ev = PageHit
         then do {
           process' \<leftarrow> py_get (processes st1) q;
           ps' \<leftarrow> py_set (processes st1) q (process'\<lparr>current_index := current_index process' + 1\<rparr>);
           let s2 = s1\<lparr>the_mmu := st1\<lparr>processes := ps'\<rparr>\<rparr>;
           if current_index process' + 1 < int (length (reference_string process'))
           then return_to_ready_queue s2 q
           else handle_process_completion s2 q
         }
         else Some s1)"
proof -
  let ?pr = "processes (the_mmu s) ! nat q"
  have gp: "py_get (processes (the_mmu s)) q = Some ?pr"
    using q by (simp add: py_get_nonneg)
  have c0: "0 \<le> current_index ?pr"
    using wf_implementorD(6)[OF wf] q by simp
  have gn: "py_get (reference_string ?pr) (current_index ?pr) = Some n"
    using c0 ci n by (simp add: py_get_nonneg)
  show ?thesis
    using gp ci gn rq
    by (simp add: loop_body_def Let_def create_step_def cong: if_cong)
qed


lemma loop_body_invalid:
  assumes wf: "wf_implementor s"
    and q: "0 \<le> q" "q < int (length (processes (the_mmu s)))"
           "\<not> completed (processes (the_mmu s) ! nat q)" "q \<notin> set (ready_queue s)"
    and ci: "current_index (processes (the_mmu s) ! nat q)
               < int (length (reference_string (processes (the_mmu s) ! nat q)))"
    and n: "n = reference_string (processes (the_mmu s) ! nat q)
                  ! nat (current_index (processes (the_mmu s) ! nat q))"
    and bad: "n < 0 \<or> m (processes (the_mmu s) ! nat q) \<le> n"
  shows "\<exists>s'. loop_body s q = Some s' \<and> wf_implementor s' \<and>
           ready_queue s' = ready_queue s \<and>
           processes (the_mmu s') =
             (processes (the_mmu s))[nat q := (processes (the_mmu s) ! nat q)
                                        \<lparr>usecount := 0, completed := True\<rparr>] \<and>
           (\<forall>i. i \<noteq> nat q \<longrightarrow> page_table (the_mmu s') ! i = page_table (the_mmu s) ! i) \<and>
           completed_count s' = completed_count s + 1 \<and>
           total_processes s' = total_processes s \<and>
           steps s' = steps s @
             [SimulationStep (timestamp (the_mmu s) + 1) q n InvalidReference (-2),
              SimulationStep (timestamp (the_mmu s) + 1) q (-1) ProcessComplete (-1)]"
proof -
  let ?st = "the_mmu s"
  note w = wf_implementorD[OF wf]
  from handle_page_request_basic_wf[OF w(1) q(1,2), of n] bad obtain fr ev st1 where
    rq: "handle_page_request_basic ?st q n = Some (fr, ev, st1)" and wf1: "wf_mmu st1"
    and ev: "ev = InvalidReference" and fr: "fr = -2"
    and st1: "st1 = ?st\<lparr>timestamp := timestamp ?st + 1\<rparr>"
    by blast
  define s1 where "s1 = s\<lparr>the_mmu := st1,
                  steps := steps s @ [SimulationStep (timestamp st1) q n ev fr]\<rparr>"
  have lb: "loop_body s q = handle_process_completion s1 q"
    using loop_body_request[OF wf q(1,2) ci n rq] ev by (simp add: s1_def Let_def)
  have ps1: "processes st1 = processes ?st" by (simp add: st1)
  have wfs1: "wf_implementor s1"
    unfolding s1_def using wf_implementor_mmu_same[OF wf wf1 ps1] by simp
  have q1: "q < int (length (processes (the_mmu s1)))"
    "\<not> completed (processes (the_mmu s1) ! nat q)" "q \<notin> set (ready_queue s1)"
    using q by (simp_all add: s1_def ps1)
  from handle_process_completion_wf[OF wfs1 q(1) q1] obtain s' where
    c: "handle_process_completion s1 q = Some s'" "wf_implementor s'"
       "ready_queue s' = ready_queue s1"
       "processes (the_mmu s') =
             (processes (the_mmu s1))[nat q := (processes (the_mmu s1) ! nat q)
                                        \<lparr>usecount := 0, completed := True\<rparr>]"
       "\<forall>i. i \<noteq> nat q \<longrightarrow> page_table (the_mmu s') ! i = page_table (the_mmu s1) ! i"
       "completed_count s' = completed_count s1 + 1"
       "total_processes s' = total_processes s1"
       "steps s' = steps s1 @ [SimulationStep (timestamp (the_mmu s1)) q (-1) ProcessComplete (-1)]"
    by blast
  show ?thesis
    using lb c ev fr by (simp add: s1_def st1)
qed

lemma loop_body_fault:
  assumes wf: "wf_implementor s"
    and q: "0 \<le> q" "q < int (length (processes (the_mmu s)))"
           "\<not> completed (processes (the_mmu s) ! nat q)" "q \<notin> set (ready_queue s)"
    and ci: "current_index (processes (the_mmu s) ! nat q)
               < int (length (reference_string (processes (the_mmu s) ! nat q)))"
    and n: "n = reference_string (processes (the_mmu s) ! nat q)
                  ! nat (current_index (processes (the_mmu s) ! nat q))"
    and rq: "handle_page_request_basic (the_mmu s) q n = Some (fr, PageFault, st1)"
  shows "\<exists>fr' st2 s'. handle_page_fault_basic st1 q n = Some (fr', st2) \<and>
           loop_body s q = Some s' \<and> wf_implementor s' \<and>
           the_mmu s' = st2 \<and> ready_queue s' = ready_queue s @ [q] \<and>
           steps s' = steps s @
             [SimulationStep (timestamp st1) q n PageFault fr,
              SimulationStep (timestamp st2) q n PageFaultHandled fr'] \<and>
           completed_count s' = completed_count s \<and> total_processes s' = total_processes s \<and>
           0 \<le> n \<and> n < m (processes (the_mmu s) ! nat q) \<and>
           valid (page_table st2 ! nat q ! nat n) \<and>
           length (processes st2) = length (processes (the_mmu s)) \<and>
           (\<forall>i. i \<noteq> nat q \<longrightarrow> processes st2 ! i = processes (the_mmu s) ! i) \<and>
           processes st2 ! nat q =
             (processes (the_mmu s) ! nat q)\<lparr>usecount := usecount (processes st2 ! nat q)\<rparr> \<and>
           (\<forall>i. i \<noteq> nat q \<longrightarrow> page_table st2 ! i = page_table (the_mmu s) ! i)"
proof -
  let ?st = "the_mmu s"
  let ?ps = "processes ?st" and ?Q = "nat q"
  let ?pr = "?ps ! ?Q"
  note w = wf_implementorD[OF wf]
  have Q: "?Q < length ?ps" using q by simp
  from handle_page_request_basic_wf[OF w(1) q(1,2), of n] rq have
    wf1: "wf_mmu st1" and ps1: "processes st1 = ?ps"
    and ro1: "\<forall>i. i \<noteq> ?Q \<longrightarrow> page_table st1 ! i = page_table ?st ! i"
    and nr: "\<not> (n < 0 \<or> m ?pr \<le> n)"
    by auto
  then have n0: "0 \<le> n" "n < m ?pr" by auto
  have q1: "q < int (length (processes st1))" "n < m (processes st1 ! ?Q)"
    using q n0 by (simp_all add: ps1)
  from handle_page_fault_basic_wf[OF wf1 q(1) q1(1) n0(1) q1(2)] obtain fr' st2 where
    f: "handle_page_fault_basic st1 q n = Some (fr', st2)" "wf_mmu st2"
       "valid (page_table st2 ! ?Q ! nat n)"
       "length (processes st2) = length (processes st1)"
       "\<forall>i. i \<noteq> ?Q \<longrightarrow> processes st2 ! i = processes st1 ! i"
       "processes st2 ! ?Q = (processes st1 ! ?Q)\<lparr>usecount := usecount (processes st2 ! ?Q)\<rparr>"
       "\<forall>i. i \<noteq> ?Q \<longrightarrow> page_table st2 ! i = page_table st1 ! i"
    by blast
  have ps2: "processes st2 = ?ps[?Q := ?pr\<lparr>usecount := usecount (processes st2 ! ?Q)\<rparr>]"
    using list_eq_update[of "processes st2" ?ps ?Q] f(4,5,6) by (simp add: ps1)
  define s3 where "s3 = s\<lparr>the_mmu := st2,
      steps := steps s @ [SimulationStep (timestamp st1) q n PageFault fr,
                          SimulationStep (timestamp st2) q n PageFaultHandled fr']\<rparr>"
  have wf3: "wf_implementor s3"
    unfolding s3_def using wf_implementor_mmu[OF wf f(2) ps2 Q] w(6) Q by simp
  have q3: "q < int (length (processes (the_mmu s3)))"
    "\<not> completed (processes (the_mmu s3) ! nat q)" "q \<notin> set (ready_queue s3)"
    using q Q f(4) by (simp_all add: s3_def ps1) (subst f(6), simp add: ps1)
  note ret = return_to_ready_queue_wf[OF wf3 q(1) q3]
  define s' where "s' = s3\<lparr>ready_queue := ready_queue s3 @ [q]\<rparr>"
  have lb: "loop_body s q = Some s'"
    using loop_body_request[OF wf q(1,2) ci n rq] f(1) ret(1)
    by (simp add: Let_def s3_def s'_def)
  have ro: "\<forall>i. i \<noteq> ?Q \<longrightarrow> page_table st2 ! i = page_table ?st ! i"
    using f(7) ro1 by simp
  show ?thesis
    using f(1,3,4,5,6) lb ret(2) n0 ro
    by (simp add: s'_def s3_def ps1)
qed

lemma loop_body_hit:
  assumes wf: "wf_implementor s"
    and q: "0 \<le> q" "q < int (length (processes (the_mmu s)))"
           "\<not> completed (processes (the_mmu s) ! nat q)" "q \<notin> set (ready_queue s)"
    and ci: "current_index (processes (the_mmu s) ! nat q)
               < int (length (reference_string (processes (the_mmu s) ! nat q)))"
    and n: "n = reference_string (processes (the_mmu s) ! nat q)
                  ! nat (current_index (processes (the_mmu s) ! nat q))"
    and rq: "handle_page_request_basic (the_mmu s) q n = Some (fr, ev, st1)"
    and ev: "ev = TlbHit \<or> ev = PageHit"
  shows "\<exists>s'. loop_body s q = Some s' \<and> wf_implementor s' \<and>
           (ready_queue s' = ready_queue s @ [q] \<or> ready_queue s' = ready_queue s) \<and>
           current_index (processes (the_mmu s') ! nat q)
             = current_index (processes (the_mmu s) ! nat q) + 1 \<and>
           reference_string (processes (the_mmu s') ! nat q)
             = reference_string (processes (the_mmu s) ! nat q) \<and>
           length (processes (the_mmu s')) = length (processes (the_mmu s)) \<and>
           (\<forall>i. i \<noteq> nat q \<longrightarrow> processes (the_mmu s') ! i = processes (the_mmu s) ! i) \<and>
           (\<forall>i. i \<noteq> nat q \<longrightarrow> page_table (the_mmu s') ! i = page_table (the_mmu s) ! i) \<and>
           total_processes s' = total_processes s"
proof -
  let ?st = "the_mmu s"
  let ?ps = "processes ?st" and ?Q = "nat q"
  let ?pr = "?ps ! ?Q"
  note w = wf_implementorD[OF wf]
  have Q: "?Q < length ?ps" using q by simp
  from handle_page_request_basic_wf[OF w(1) q(1,2), of n] rq have
    wf1: "wf_mmu st1" and ps1: "processes st1 = ?ps"
    and ro1: "\<forall>i. i \<noteq> ?Q \<longrightarrow> page_table st1 ! i = page_table ?st ! i"
    by auto
  define pr' where "pr' = ?pr\<lparr>current_index := current_index ?pr + 1\<rparr>"
  define ps' where "ps' = ?ps[?Q := pr']"
  define st2 where "st2 = st1\<lparr>processes := ps'\<rparr>"
  define s2 where "s2 = s\<lparr>steps := steps s @ [SimulationStep (timestamp st1) q n ev fr],
                         the_mmu := st2\<rparr>"
  have gp: "py_get (processes st1) q = Some ?pr" using q by (simp add: ps1 py_get_nonneg)
  have sp: "py_set (processes st1) q pr' = Some ps'"
    using q by (simp add: ps1 py_set_nonneg ps'_def)
  have ne: "ev \<noteq> InvalidReference" "ev \<noteq> PageFault" using ev by auto
  have lb: "loop_body s q =
         (if current_index ?pr + 1 < int (length (reference_string ?pr))
           then return_to_ready_queue s2 q
           else handle_process_completion s2 q)"
    using loop_body_request[OF wf q(1,2) ci n rq] ne ev gp sp[unfolded pr'_def]
    by (simp add: Let_def s2_def st2_def ps'_def pr'_def cong: if_cong)
  note w1 = wf_mmuD[OF wf1]
  have rows: "rows_ok ps' (page_table st1) (length (physical_memory st1))"
    by (rule rows_ok_processes[OF w1(1)])
       (use Q in \<open>auto simp: ps'_def pr'_def ps1 nth_list_update\<close>)
  have wf2: "wf_mmu st2"
    unfolding wf_mmu_def using rows w1(2,3,4,5) by (simp add: st2_def ps'_def ps1)
  have c0: "0 \<le> current_index ?pr" using w(6) Q by simp
  have "wf_implementor (s\<lparr>the_mmu := st2\<rparr>)"
    using wf_implementor_mmu[OF wf wf2, of ?Q pr'] Q c0
    by (simp add: st2_def ps'_def pr'_def)
  moreover have "s2 = (s\<lparr>the_mmu := st2\<rparr>)
                        \<lparr>steps := steps s @ [SimulationStep (timestamp st1) q n ev fr]\<rparr>"
    by (simp add: s2_def)
  ultimately have wfs2: "wf_implementor s2" by simp
  have q2: "q < int (length (processes (the_mmu s2)))"
    "\<not> completed (processes (the_mmu s2) ! nat q)" "q \<notin> set (ready_queue s2)"
    using q Q by (simp_all add: s2_def st2_def ps'_def pr'_def)
  have facts: "current_index (processes (the_mmu s2) ! ?Q) = current_index ?pr + 1"
    "reference_string (processes (the_mmu s2) ! ?Q) = reference_string ?pr"
    "length (processes (the_mmu s2)) = length ?ps"
    "\<forall>i. i \<noteq> ?Q \<longrightarrow> processes (the_mmu s2) ! i = ?ps ! i"
    "\<forall>i. i \<noteq> ?Q \<longrightarrow> page_table (the_mmu s2) ! i = page_table ?st ! i"
    "total_processes s2 = total_processes s" "ready_queue s2 = ready_queue s"
    using Q ro1 by (simp_all add: s2_def st2_def ps'_def pr'_def)
  show ?thesis
  proof (cases "current_index ?pr + 1 < int (length (reference_string ?pr))")
    case True
    note ret = return_to_ready_queue_wf[OF wfs2 q(1) q2]
    have "loop_body s q = Some (s2\<lparr>ready_queue := ready_queue s2 @ [q]\<rparr>)"
      using lb True ret(1) by simp
    with ret(2) facts show ?thesis by simp
  next
    case False
    from handle_process_completion_wf[OF wfs2 q(1) q2] obtain s' where
      c: "handle_process_completion s2 q = Some s'" "wf_implementor s'"
         "ready_queue s' = ready_queue s2"
         "processes (the_mmu s') =
             (processes (the_mmu s2))[nat q := (processes (the_mmu s2) ! nat q)
                                        \<lparr>usecount := 0, completed := True\<rparr>]"
         "\<forall>i. i \<noteq> nat q \<longrightarrow> page_table (the_mmu s') ! i = page_table (the_mmu s2) ! i"
         "total_processes s' = total_processes s2"
      by blast
    have "loop_body s q = Some s'" using lb False c(1) by simp
    moreover have "current_index (processes (the_mmu s') ! ?Q) = current_index ?pr + 1"
      "reference_string (processes (the_mmu s') ! ?Q) = reference_string ?pr"
      "length (processes (the_mmu s')) = length ?ps"
      "\<forall>i. i \<noteq> ?Q \<longrightarrow> processes (the_mmu s') ! i = ?ps ! i"
      using facts(1,2,3,4) Q by (simp_all add: c(4))
    moreover have "\<forall>i. i \<noteq> ?Q \<longrightarrow> page_table (the_mmu s') ! i = page_table ?st ! i"
      using c(5) facts(5) by simp
    ultimately show ?thesis using c(2,3,6) facts(6,7) by simp
  qed
qed

lemma wf_implementor_head:
  assumes wf: "wf_implementor s" and rq: "ready_queue s = q # rest"
  shows "wf_implementor (s\<lparr>ready_queue := rest\<rparr>)"
    and "0 \<le> q" "q < int (length (processes (the_mmu s)))"
        "\<not> completed (processes (the_mmu s) ! nat q)" "q \<notin> set rest"
    and "\<not> is_simulation_complete s"
proof -
  note w = wf_implementorD[OF wf]
  show "wf_implementor (s\<lparr>ready_queue := rest\<rparr>)"
    using w rq unfolding wf_implementor_def by simp
  show q: "0 \<le> q" "q < int (length (processes (the_mmu s)))"
        "\<not> completed (processes (the_mmu s) ! nat q)" "q \<notin> set rest"
    using w(4,5) rq by simp_all
  have "nat q < length (processes (the_mmu s))" using q by simp
  from filter_length_lt[OF this, of completed] q(3)
  have "length (filter completed (processes (the_mmu s))) < length (processes (the_mmu s))" .
  then show "\<not> is_simulation_complete s"
    using w(2,3) by (simp add: is_simulation_complete_def)
qed

lemma turn_head:
  assumes wf: "wf_implementor s" and rq: "ready_queue s = q # rest"
  shows "turn s = loop_body (s\<lparr>ready_queue := rest\<rparr>) q"
  using wf_implementor_head(6)[OF wf rq] rq by (simp add: turn_def)

lemma loop_body_wf:
  assumes wf: "wf_implementor s"
    and q: "0 \<le> q" "q < int (length (processes (the_mmu s)))"
           "\<not> completed (processes (the_mmu s) ! nat q)" "q \<notin> set (ready_queue s)"
  shows "\<exists>s'. loop_body s q = Some s' \<and> wf_implementor s' \<and>
           (ready_queue s' = ready_queue s \<or> ready_queue s' = ready_queue s @ [q]) \<and>
           length (processes (the_mmu s')) = length (processes (the_mmu s)) \<and>
           (\<forall>i. i \<noteq> nat q \<longrightarrow> processes (the_mmu s') ! i = processes (the_mmu s) ! i) \<and>
           (\<forall>i. i \<noteq> nat q \<longrightarrow> page_table (the_mmu s') ! i = page_table (the_mmu s) ! i) \<and>
           total_processes s' = total_processes s"
proof -
  let ?st = "the_mmu s"
  let ?ps = "processes ?st" and ?Q = "nat q"
  let ?pr = "?ps ! ?Q"
  note w = wf_implementorD[OF wf]
  show ?thesis
  proof (cases "current_index ?pr < int (length (reference_string ?pr))")
    case False
    then have ex: "int (length (reference_string ?pr)) \<le> current_index ?pr" by simp
    from handle_process_completion_wf[OF wf q] obtain s' where
      c: "handle_process_completion s q = Some s'" "wf_implementor s'"
         "ready_queue s' = ready_queue s"
         "processes (the_mmu s') = ?ps[?Q := ?pr\<lparr>usecount := 0, completed := True\<rparr>]"
         "\<forall>i. i \<noteq> ?Q \<longrightarrow> page_table (the_mmu s') ! i = page_table ?st ! i"
         "total_processes s' = total_processes s"
      by blast
    have "loop_body s q = Some s'" using loop_body_exhausted[OF wf q(1,2) ex] c(1) by simp
    then show ?thesis using c(2,3,5,6) by (simp add: c(4))
  next
    case True
    define n where "n = reference_string ?pr ! nat (current_index ?pr)"
    from handle_page_request_basic_wf[OF w(1) q(1,2), of n] obtain fr ev st1 where
      rq: "handle_page_request_basic ?st q n = Some (fr, ev, st1)"
      and evs: "ev = InvalidReference \<or> ev = TlbHit \<or> ev = PageHit \<or> ev = PageFault"
      and bad: "ev = InvalidReference \<longleftrightarrow> n < 0 \<or> m ?pr \<le> n"
      by blast
    from evs consider "ev = InvalidReference" | "ev = PageFault" | "ev = TlbHit \<or> ev = PageHit"
      by blast
    then show ?thesis
    proof cases
      case 1
      with bad have b: "n < 0 \<or> m ?pr \<le> n" by simp
      from loop_body_invalid[OF wf q True n_def b] obtain s' where
        c: "loop_body s q = Some s'" "wf_implementor s'"
           "ready_queue s' = ready_queue s"
           "processes (the_mmu s') = ?ps[?Q := ?pr\<lparr>usecount := 0, completed := True\<rparr>]"
           "\<forall>i. i \<noteq> ?Q \<longrightarrow> page_table (the_mmu s') ! i = page_table ?st ! i"
           "total_processes s' = total_processes s"
        by blast
      then show ?thesis by (simp add: c(4))
    next
      case 2
      from loop_body_fault[OF wf q True n_def rq[unfolded 2]] obtain fr' st2 s' where
        c: "loop_body s q = Some s'" "wf_implementor s'" "the_mmu s' = st2"
           "ready_queue s' = ready_queue s @ [q]"
           "total_processes s' = total_processes s"
           "length (processes st2) = length ?ps"
           "\<forall>i. i \<noteq> ?Q \<longrightarrow> processes st2 ! i = ?ps ! i"
           "\<forall>i. i \<noteq> ?Q \<longrightarrow> page_table st2 ! i = page_table ?st ! i"
        by blast
      then show ?thesis by simp
    next
      case 3
      from loop_body_hit[OF wf q True n_def rq 3] obtain s' where
        c: "loop_body s q = Some s'" "wf_implementor s'"
           "ready_queue s' = ready_queue s @ [q] \<or> ready_queue s' = ready_queue s"
           "length (processes (the_mmu s')) = length ?ps"
           "\<forall>i. i \<noteq> ?Q \<longrightarrow> processes (the_mmu s') ! i = ?ps ! i"
           "\<forall>i. i \<noteq> ?Q \<longrightarrow> page_table (the_mmu s') ! i = page_table ?st ! i"
           "total_processes s' = total_processes s"
        by blast
      then show ?thesis by auto
    qed
  qed
qed

lemma turn_wf:
  assumes wf: "wf_implementor s" and rq: "ready_queue s = q # rest"
  shows "\<exists>s'. turn s = Some s' \<and> wf_implementor s' \<and>
           (ready_queue s' = rest \<or> ready_queue s' = rest @ [q]) \<and>
           length (processes (the_mmu s')) = length (processes (the_mmu s)) \<and>
           (\<forall>i. i \<noteq> nat q \<longrightarrow> processes (the_mmu s') ! i = processes (the_mmu s) ! i) \<and>
           (\<forall>i. i \<noteq> nat q \<longrightarrow> page_table (the_mmu s') ! i = page_table (the_mmu s) ! i) \<and>
           total_processes s' = total_processes s"
proof -
  note h = wf_implementor_head[OF wf rq]
  have q: "q < int (length (processes (the_mmu (s\<lparr>ready_queue := rest\<rparr>))))"
    "\<not> completed (processes (the_mmu (s\<lparr>ready_queue := rest\<rparr>)) ! nat q)"
    "q \<notin> set (ready_queue (s\<lparr>ready_queue := rest\<rparr>))"
    using h by simp_all
  from loop_body_wf[OF h(1,2) q] show ?thesis
    by (simp add: turn_head[OF wf rq])
qed

lemma turns_wf:
  "wf_implementor s \<Longrightarrow> turns j s = Some s' \<Longrightarrow> wf_implementor s'"
proof (induction j arbitrary: s)
  case 0
  then show ?case by simp
next
  case (Suc j)
  from Suc.prems(2) obtain s1 where t: "turn s = Some s1" and r: "turns j s1 = Some s'"
    by (auto split: option.splits)
  from t obtain q rest where rq: "ready_queue s = q # rest"
    by (cases "ready_queue s") (auto simp: turn_def split: if_splits)
  from turn_wf[OF Suc.prems(1) rq] t have "wf_implementor s1" by auto
  from Suc.IH[OF this r] show ?case .
qed

lemma turns_add: "turns (a + b) s = (case turns a s of None \<Rightarrow> None | Some s' \<Rightarrow> turns b s')"
  by (induction a arbitrary: s) (auto split: option.splits)


lemma make_processes_props:
  "make_processes mp i refs = Some ps \<Longrightarrow>
     length ps = length refs \<and>
     (\<forall>pr \<in> set ps. m pr \<le> mp \<and> \<not> completed pr \<and> current_index pr = 0)"
proof (induction refs arbitrary: i ps)
  case Nil
  then show ?case by simp
next
  case (Cons r refs)
  from Cons.prems obtain ps0 where
    a: "make_processes mp (i + 1) refs = Some ps0" "py_max r + 1 \<le> mp"
       "ps = \<lparr>pid = i, m = py_max r + 1, allocount = 0, usecount = 0,
               reference_string = r, current_index = 0, completed = False\<rparr> # ps0"
    by (auto simp: Let_def split: if_splits option.splits)
  from Cons.IH[OF a(1)] a(2,3) show ?case by auto
qed

lemma allocate_frames_props:
  "allocate_frames f k t ps = Some ps' \<Longrightarrow>
     (\<forall>pr \<in> set ps. m pr \<le> mp \<and> \<not> completed pr \<and> current_index pr = 0) \<Longrightarrow>
     length ps' = length ps \<and>
     (\<forall>pr \<in> set ps'. m pr \<le> mp \<and> \<not> completed pr \<and> current_index pr = 0)"
proof (induction ps arbitrary: ps')
  case Nil
  then show ?case by simp
next
  case (Cons a ps)
  from Cons.prems(1) obtain x rest' where
    a: "allocate_frames f k t ps = Some rest'" "ps' = a\<lparr>allocount := 1 + x\<rparr> # rest'"
    by (auto split: option.splits)
  from Cons.IH[OF a(1)] Cons.prems(2) a(2) show ?case by auto
qed

lemma distribute_remaining_props:
  "distribute_remaining r draw ps = Some ps' \<Longrightarrow>
     (\<forall>pr \<in> set ps. m pr \<le> mp \<and> \<not> completed pr \<and> current_index pr = 0) \<Longrightarrow>
     length ps' = length ps \<and>
     (\<forall>pr \<in> set ps'. m pr \<le> mp \<and> \<not> completed pr \<and> current_index pr = 0)"
proof (induction r arbitrary: ps)
  case 0
  then show ?case by simp
next
  case (Suc r)
  let ?i = "draw (Suc r) mod length ps"
  let ?ps1 = "ps[?i := (ps ! ?i)\<lparr>allocount := allocount (ps ! ?i) + 1\<rparr>]"
  from Suc.prems(1) have ne: "ps \<noteq> []" and d: "distribute_remaining r draw ?ps1 = Some ps'"
    by (auto simp: Let_def split: if_splits)
  have i: "?i < length ps" using ne by simp
  have "\<forall>pr \<in> set ?ps1. m pr \<le> mp \<and> \<not> completed pr \<and> current_index pr = 0"
  proof
    fix pr assume "pr \<in> set ?ps1"
    then have "pr = (ps ! ?i)\<lparr>allocount := allocount (ps ! ?i) + 1\<rparr> \<or> pr \<in> set ps"
      using set_update_subset_insert[of ps ?i] by auto
    moreover have "ps ! ?i \<in> set ps" using i by simp
    ultimately show "m pr \<le> mp \<and> \<not> completed pr \<and> current_index pr = 0"
      using Suc.prems(2) by auto
  qed
  from Suc.IH[OF d this] show ?case by simp
qed

lemma create_processes_props:
  assumes "create_processes_with_references draw k mp f refs = Some ps"
  shows "length ps = k"
    and "\<forall>pr \<in> set ps. m pr \<le> int mp \<and> \<not> completed pr \<and> current_index pr = 0"
proof -
  from assms obtain ps0 ps1 r where
    a: "length refs = k" "make_processes (int mp) 0 refs = Some ps0"
       "allocate_frames (int f) (int k) (sum_list (map m ps0)) ps0 = Some ps1"
       "distribute_remaining r draw ps1 = Some ps"
    by (auto simp: create_processes_with_references_def Let_def bind_eq_Some_conv split: if_splits)
  note p0 = make_processes_props[OF a(2)]
  note p1 = allocate_frames_props[OF a(3) p0[THEN conjunct2]]
  note p2 = distribute_remaining_props[OF a(4) p1[THEN conjunct2]]
  show "length ps = k" using p0 p1 p2 a(1) by simp
  show "\<forall>pr \<in> set ps. m pr \<le> int mp \<and> \<not> completed pr \<and> current_index pr = 0"
    using p2 by simp
qed

lemma configure_wf:
  assumes c: "configure draw k mp f t alg refs = Some s0" and f: "1 \<le> f" and t: "1 \<le> t"
  shows "wf_implementor s0"
proof -
  from c obtain ps where
    ps: "create_processes_with_references draw k mp f refs = Some ps"
    and s0: "s0 = \<lparr>the_mmu = MMU k mp f t alg False ps,
              ready_queue = map int [0..<length ps],
              completed_count = 0,
              total_processes = int (length ps),
              steps = []\<rparr>"
    by (auto simp: configure_def bind_eq_Some_conv split: if_splits)
  note p = create_processes_props[OF ps]
  have nth: "m (ps ! i) \<le> int mp \<and> \<not> completed (ps ! i) \<and> current_index (ps ! i) = 0"
    if "i < length ps" for i using p(2) that by simp
  have rows: "rows_ok ps (replicate k (replicate mp PTEntry)) f"
    unfolding rows_ok_def using p(1) nth by (auto simp: PTEntry_def)
  have fr: "frames_ok (rev (map int [0..<f])) f" by (auto simp: frames_ok_def)
  have wfm: "wf_mmu (MMU k mp f t alg False ps)"
    unfolding wf_mmu_def using rows fr p(1) f t by (simp add: MMU_def)
  have nc: "filter completed ps = []" using p(2) by (auto simp: filter_empty_conv)
  have cur: "\<forall>pr \<in> set ps. 0 \<le> current_index pr" using p(2) by simp
  have qs: "\<forall>q \<in> set (map int [0..<length ps]).
              0 \<le> q \<and> q < int (length ps) \<and> \<not> completed (ps ! nat q)"
    using nth by auto
  have d: "distinct (map int [0..<length ps])" by (simp add: distinct_map)
  show ?thesis
    unfolding wf_implementor_def s0 using wfm nc cur qs d by (simp add: MMU_def)
qed

text \<open>
  The states \<open>turns j s\<close> are the states the main loop passes through: with \<open>j\<close>
  more units of fuel it continues from them.
\<close>

lemma run_loop_turn: "turn s = Some s' \<Longrightarrow> run_loop (Suc fuel) s = run_loop fuel s'"
  by (cases "ready_queue s") (auto simp: turn_def split: if_splits)


lemma handle_page_request_invalid:
  assumes "py_get (processes st) p = Some pr" and "n < 0 \<or> m pr \<le> n"
  shows "handle_page_request_basic st p n
           = Some (-2, InvalidReference, st\<lparr>timestamp := timestamp st + 1\<rparr>)"
    and "handle_page_request st p n access_type
           = Some (-2, InvalidReference, st\<lparr>timestamp := timestamp st + 1\<rparr>)"
  using assms by (auto simp: handle_page_request_basic_def handle_page_request_def Let_def)


section \<open>Evict or allocate on a page fault\<close>

text \<open>
  Claim C1 as stated says that a page is evicted only when no frame is free and the
  process is at its quota, and that a free frame is taken in every other case.  The
  condition in the code is a disjunction.  In the run of two processes with quota 1
  each, process 0 faults on its second page while frame 1 is free: its usage 1 has
  reached its quota 1, so page 0 is evicted and its frame 0 reused; the free pool still
  holds frame 1 and the usage counter is still 1.  Both \<open>handle_page_fault\<close>
  functions agree.
\<close>

theorem quota_eviction_despite_free_frame:
  "do {
     s0 \<leftarrow> configure (\<lambda>r. 0) 2 2 2 1 LRU [[0, 1], [0]];
     s \<leftarrow> turns 4 s0;
     (fr, ev, st) \<leftarrow> handle_page_request_basic (the_mmu s) 0 1;
     Some (ready_queue s, ev, st)
   } = Some ([0], PageFault, quota_reached)
   \<and> free_frames quota_reached = [1]
   \<and> usecount (processes quota_reached ! 0) = 1
   \<and> allocount (processes quota_reached ! 0) = 1
   \<and> valid (page_table quota_reached ! 0 ! 0)
   \<and> handle_page_fault_basic quota_reached 0 1 = Some (0, quota_evicted)
   \<and> handle_page_fault quota_reached 0 1 = Some (0, quota_evicted)
   \<and> free_frames quota_evicted = [1]
   \<and> usecount (processes quota_evicted ! 0) = 1
   \<and> \<not> valid (page_table quota_evicted ! 0 ! 0)"
  by code_simp


text \<open>
  Claim C1, amended.  Take a call to \<open>handle_page_fault\<close> that returns, for a page
  \<open>n\<close> of process \<open>p\<close> that is in range and not resident, in a state where \<open>p\<close>
  is one of the process numbers \<open>0 .. k-1\<close>, the page tables have one row per
  process, the row of \<open>p\<close> is at least as long as its page count, and the
  last-access time, the frame and the frequency of every page the process holds lie
  inside the start values of the victim scan (time above -1, all three below
  \<open>sys.maxsize\<close>).  For backend/core the call is one that does not take the sharing
  branch; python/core has no such branch.  Then, in both files:
  \<^item> a page that the process held before the call is invalid after it if and only if
    (no frame is free or the process is at or over its quota) and the process holds
    at least one page;
  \<^item> when no frame is free or the process is at or over its quota, the free pool and
    all process control blocks (quotas and usage counters) are unchanged, and if the
    process holds a page, the returned frame is the frame of the victim chosen by the
    policy among the pages of this process (python/core treats any policy other than
    FIFO and LFU as LRU), and the page tables change in exactly two entries: the
    victim becomes invalid and page \<open>n\<close> is installed;
  \<^item> otherwise (a frame is free and the process is below its quota) the returned frame
    is the last one of the free pool, which loses it, the usage counter of this process
    grows by exactly one, the other control blocks are unchanged, and the page tables
    change in the entry of page \<open>n\<close> only: nothing is evicted.
\<close>

theorem page_fault_evicts_or_allocates:
  assumes p: "0 \<le> p" "p < int (length (processes st))"
             "length (page_table st) = length (processes st)"
    and n: "0 \<le> n" "n < m (processes st ! nat p)"
           "m (processes st ! nat p) \<le> int (length (page_table st ! nat p))"
    and inv: "\<not> valid (page_table st ! nat p ! nat n)"
    and bounds: "\<forall>x \<in> set (resident_pages (page_table st ! nat p) (m (processes st ! nat p))).
                   -1 < time (page_table st ! nat p ! nat x) \<and>
                   time (page_table st ! nat p ! nat x) < sys_maxsize \<and>
                   frame (page_table st ! nat p ! nat x) < sys_maxsize \<and>
                   frequency (page_table st ! nat p ! nat x) < sys_maxsize"
  shows
    "let pr = processes st ! nat p;
         row = page_table st ! nat p;
         held = resident_pages row (m pr);
         evicting = (free_frames st = [] \<or> allocount pr \<le> usecount pr)
     in
       (\<forall>fr st'.
          handle_page_fault st p n = Some (fr, st') \<and>
          (\<not> (enable_shared_memory st \<and> n \<in> shared_page_numbers st)
             \<or> find_sharer (page_table st) (enumerate (processes st)) p n = Some None) \<longrightarrow>
          ((\<exists>v \<in> set held. \<not> valid (page_table st' ! nat p ! nat v)) \<longleftrightarrow> evicting \<and> held \<noteq> []) \<and>
          (evicting \<longrightarrow>
             free_frames st' = free_frames st \<and> processes st' = processes st \<and>
             (held \<noteq> [] \<longrightarrow>
                (\<exists>v. chosen_victim (algorithm st) row (m pr) v \<and> fr = frame (row ! nat v) \<and>
                     page_table st' = (page_table st)[nat p := row
                        [nat v := (row ! nat v)\<lparr>valid := False\<rparr>,
                         nat n := private_entry (row ! nat n) fr (timestamp st)]]))) \<and>
          (\<not> evicting \<longrightarrow>
             fr = last (free_frames st) \<and> free_frames st' = butlast (free_frames st) \<and>
             processes st' = (processes st)[nat p := pr\<lparr>usecount := usecount pr + 1\<rparr>] \<and>
             page_table st' = (page_table st)[nat p := row
                [nat n := private_entry (row ! nat n) fr (timestamp st)]]))
       \<and>
       (\<forall>fr st'.
          handle_page_fault_basic st p n = Some (fr, st') \<longrightarrow>
          ((\<exists>v \<in> set held. \<not> valid (page_table st' ! nat p ! nat v)) \<longleftrightarrow> evicting \<and> held \<noteq> []) \<and>
          (evicting \<longrightarrow>
             free_frames st' = free_frames st \<and> processes st' = processes st \<and>
             (held \<noteq> [] \<longrightarrow>
                (\<exists>v. chosen_victim (if algorithm st = MRU then LRU else algorithm st) row (m pr) v \<and>
                     fr = frame (row ! nat v) \<and>
                     page_table st' = (page_table st)[nat p := row
                        [nat v := (row ! nat v)\<lparr>valid := False\<rparr>,
                         nat n := (row ! nat n)\<lparr>frame := fr, valid := True,
                                                 time := timestamp st, frequency := 1\<rparr>]]))) \<and>
          (\<not> evicting \<longrightarrow>
             fr = last (free_frames st) \<and> free_frames st' = butlast (free_frames st) \<and>
             processes st' = (processes st)[nat p := pr\<lparr>usecount := usecount pr + 1\<rparr>] \<and>
             page_table st' = (page_table st)[nat p := row
                [nat n := (row ! nat n)\<lparr>frame := fr, valid := True,
                                        time := timestamp st, frequency := 1\<rparr>]]))"
proof -
  let ?ps = "processes st" and ?pt = "page_table st"
  let ?pr = "?ps ! nat p" and ?row = "?pt ! nat p"
  let ?held = "resident_pages ?row (m ?pr)"
  let ?ev = "free_frames st = [] \<or> allocount ?pr \<le> usecount ?pr"
  have np: "nat p < length ?pt" using p by simp
  have nl: "nat n < length ?row" using n by linarith
  \<comment> \<open>what the two page-table equations say about the pages held before\<close>
  have evicted: "\<exists>u \<in> set ?held. \<not> valid (pt' ! nat p ! nat u)"
    if cv: "chosen_victim alg ?row (m ?pr) v"
      and pt': "pt' = ?pt[nat p := ?row[nat v := (?row ! nat v)\<lparr>valid := False\<rparr>, nat n := e]]"
    for alg v pt' e
  proof -
    have vres: "v \<in> set ?held" using cv by (simp add: chosen_victim_def)
    note vr = resident_pagesD[OF vres]
    have vl: "nat v < length ?row" using vr n(3) by linarith
    have vn: "nat v \<noteq> nat n" using vr inv by auto
    have "pt' ! nat p ! nat v = (?row ! nat v)\<lparr>valid := False\<rparr>"
      using np vl vn by (simp add: pt')
    then have "\<not> valid (pt' ! nat p ! nat v)" by simp
    with vres show ?thesis by blast
  qed
  have kept: "\<not> (\<exists>u \<in> set ?held. \<not> valid (pt' ! nat p ! nat u))"
    if pt': "pt' = ?pt[nat p := ?row[nat n := e]]" for pt' e
  proof -
    have "valid (pt' ! nat p ! nat u)" if u: "u \<in> set ?held" for u
    proof -
      note ur = resident_pagesD[OF u]
      have ul: "nat u < length ?row" using ur n(3) by linarith
      have un: "nat u \<noteq> nat n" using ur inv by auto
      have "pt' ! nat p ! nat u = ?row ! nat u" using np ul un by (simp add: pt')
      with ur show ?thesis by simp
    qed
    then show ?thesis by blast
  qed
  have backend:
    "((\<exists>v \<in> set ?held. \<not> valid (page_table st' ! nat p ! nat v)) \<longleftrightarrow> ?ev \<and> ?held \<noteq> []) \<and>
     (?ev \<longrightarrow>
        free_frames st' = free_frames st \<and> processes st' = processes st \<and>
        (?held \<noteq> [] \<longrightarrow>
           (\<exists>v. chosen_victim (algorithm st) ?row (m ?pr) v \<and> fr = frame (?row ! nat v) \<and>
                page_table st' = ?pt[nat p := ?row
                   [nat v := (?row ! nat v)\<lparr>valid := False\<rparr>,
                    nat n := private_entry (?row ! nat n) fr (timestamp st)]]))) \<and>
     (\<not> ?ev \<longrightarrow>
        fr = last (free_frames st) \<and> free_frames st' = butlast (free_frames st) \<and>
        processes st' = ?ps[nat p := ?pr\<lparr>usecount := usecount ?pr + 1\<rparr>] \<and>
        page_table st' = ?pt[nat p := ?row
           [nat n := private_entry (?row ! nat n) fr (timestamp st)]])"
    if hf: "handle_page_fault st p n = Some (fr, st')"
      and nosh: "\<not> (enable_shared_memory st \<and> n \<in> shared_page_numbers st)
                 \<or> find_sharer ?pt (enumerate ?ps) p n = Some None"
    for fr st'
  proof (cases ?ev)
    case True
    note e = handle_page_fault_evicting[OF p nosh n inv True hf]
    have vic: "\<exists>v. chosen_victim (algorithm st) ?row (m ?pr) v \<and> fr = frame (?row ! nat v) \<and>
                page_table st' = ?pt[nat p := ?row
                   [nat v := (?row ! nat v)\<lparr>valid := False\<rparr>,
                    nat n := private_entry (?row ! nat n) fr (timestamp st)]]"
      if ne: "?held \<noteq> []"
    proof -
      from ne obtain x where x: "x \<in> set ?held" by (cases ?held) auto
      with bounds have b: "-1 < time (?row ! nat x)" "time (?row ! nat x) < sys_maxsize"
        "frame (?row ! nat x) < sys_maxsize" "frequency (?row ! nat x) < sys_maxsize"
        by blast+
      show ?thesis by (rule e(3)[OF x b])
    qed
    have iff: "(\<exists>v \<in> set ?held. \<not> valid (page_table st' ! nat p ! nat v)) \<longleftrightarrow> ?held \<noteq> []"
    proof
      assume "\<exists>v \<in> set ?held. \<not> valid (page_table st' ! nat p ! nat v)"
      then show "?held \<noteq> []" by auto
    next
      assume ne: "?held \<noteq> []"
      from vic[OF ne] obtain v where
        "chosen_victim (algorithm st) ?row (m ?pr) v"
        "page_table st' = ?pt[nat p := ?row
                   [nat v := (?row ! nat v)\<lparr>valid := False\<rparr>,
                    nat n := private_entry (?row ! nat n) fr (timestamp st)]]"
        by blast
      then show "\<exists>v \<in> set ?held. \<not> valid (page_table st' ! nat p ! nat v)" by (rule evicted)
    qed
    from True iff e(1,2) vic show ?thesis by simp
  next
    case False
    note a = handle_page_fault_allocating[OF p nosh n False hf]
    from a have "page_table st' = ?pt[nat p := ?row
           [nat n := private_entry (?row ! nat n) fr (timestamp st)]]" by blast
    from kept[OF this] False a show ?thesis by simp
  qed
  have basic:
    "((\<exists>v \<in> set ?held. \<not> valid (page_table st' ! nat p ! nat v)) \<longleftrightarrow> ?ev \<and> ?held \<noteq> []) \<and>
     (?ev \<longrightarrow>
        free_frames st' = free_frames st \<and> processes st' = processes st \<and>
        (?held \<noteq> [] \<longrightarrow>
           (\<exists>v. chosen_victim (if algorithm st = MRU then LRU else algorithm st) ?row (m ?pr) v \<and>
                fr = frame (?row ! nat v) \<and>
                page_table st' = ?pt[nat p := ?row
                   [nat v := (?row ! nat v)\<lparr>valid := False\<rparr>,
                    nat n := (?row ! nat n)\<lparr>frame := fr, valid := True,
                                             time := timestamp st, frequency := 1\<rparr>]]))) \<and>
     (\<not> ?ev \<longrightarrow>
        fr = last (free_frames st) \<and> free_frames st' = butlast (free_frames st) \<and>
        processes st' = ?ps[nat p := ?pr\<lparr>usecount := usecount ?pr + 1\<rparr>] \<and>
        page_table st' = ?pt[nat p := ?row
           [nat n := (?row ! nat n)\<lparr>frame := fr, valid := True,
                                    time := timestamp st, frequency := 1\<rparr>]])"
    if hf: "handle_page_fault_basic st p n = Some (fr, st')" for fr st'
  proof (cases ?ev)
    case True
    note e = handle_page_fault_basic_evicting[OF p n inv True hf]
    have vic: "\<exists>v. chosen_victim (if algorithm st = MRU then LRU else algorithm st) ?row (m ?pr) v \<and>
                fr = frame (?row ! nat v) \<and>
                page_table st' = ?pt[nat p := ?row
                   [nat v := (?row ! nat v)\<lparr>valid := False\<rparr>,
                    nat n := (?row ! nat n)\<lparr>frame := fr, valid := True,
                                             time := timestamp st, frequency := 1\<rparr>]]"
      if ne: "?held \<noteq> []"
    proof -
      from ne obtain x where x: "x \<in> set ?held" by (cases ?held) auto
      with bounds have b: "-1 < time (?row ! nat x)" "time (?row ! nat x) < sys_maxsize"
        "frame (?row ! nat x) < sys_maxsize" "frequency (?row ! nat x) < sys_maxsize"
        by blast+
      show ?thesis by (rule e(3)[OF x b])
    qed
    have iff: "(\<exists>v \<in> set ?held. \<not> valid (page_table st' ! nat p ! nat v)) \<longleftrightarrow> ?held \<noteq> []"
    proof
      assume "\<exists>v \<in> set ?held. \<not> valid (page_table st' ! nat p ! nat v)"
      then show "?held \<noteq> []" by auto
    next
      assume ne: "?held \<noteq> []"
      from vic[OF ne] obtain v where
        "chosen_victim (if algorithm st = MRU then LRU else algorithm st) ?row (m ?pr) v"
        "page_table st' = ?pt[nat p := ?row
                   [nat v := (?row ! nat v)\<lparr>valid := False\<rparr>,
                    nat n := (?row ! nat n)\<lparr>frame := fr, valid := True,
                                             time := timestamp st, frequency := 1\<rparr>]]"
        by blast
      then show "\<exists>v \<in> set ?held. \<not> valid (page_table st' ! nat p ! nat v)" by (rule evicted)
    qed
    from True iff e(1,2) vic show ?thesis by simp
  next
    case False
    note a = handle_page_fault_basic_allocating[OF p n False hf]
    from a have "page_table st' = ?pt[nat p := ?row
           [nat n := (?row ! nat n)\<lparr>frame := fr, valid := True,
                                    time := timestamp st, frequency := 1\<rparr>]]" by blast
    from kept[OF this] False a show ?thesis by simp
  qed
  show ?thesis
    unfolding Let_def
    apply (rule conjI)
    subgoal by (intro allI impI, elim conjE) (rule backend; assumption)
    subgoal by (intro allI impI) (rule basic; assumption)
    done
qed

theorem page_fault_evicts_or_allocates_witness:
  "handle_page_fault quota_reached 0 1 = Some (0, quota_evicted)
   \<and> handle_page_fault_basic quota_reached 0 1 = Some (0, quota_evicted)
   \<and> free_frames quota_reached \<noteq> []
   \<and> allocount (processes quota_reached ! 0) \<le> usecount (processes quota_reached ! 0)
   \<and> resident_pages (page_table quota_reached ! 0) 2 = [0]
   \<and> free_frames quota_evicted = free_frames quota_reached
   \<and> processes quota_evicted = processes quota_reached
   \<and> (\<exists>v. chosen_victim LRU (page_table quota_reached ! 0) 2 v
          \<and> 0 = frame (page_table quota_reached ! 0 ! nat v)
          \<and> \<not> valid (page_table quota_evicted ! 0 ! nat v))
   \<and> handle_page_fault one_faulted 0 0 = Some (0, one_resident)
   \<and> handle_page_fault_basic one_faulted 0 0 = Some (0, one_resident)
   \<and> 0 = last (free_frames one_faulted)
   \<and> free_frames one_resident = butlast (free_frames one_faulted)
   \<and> map usecount (processes one_faulted) = [0]
   \<and> map usecount (processes one_resident) = [1]
   \<and> handle_page_fault_basic (no_page_held LRU) 1 0 = Some (-1, no_page_served LRU)
   \<and> resident_pages (page_table (no_page_held LRU) ! 1) 1 = []
   \<and> allocount (processes (no_page_held LRU) ! 1) \<le> usecount (processes (no_page_held LRU) ! 1)
   \<and> free_frames (no_page_served LRU) = free_frames (no_page_held LRU)
   \<and> processes (no_page_served LRU) = processes (no_page_held LRU)"
proof -
  \<comment> \<open>process 0 at its quota with frame 1 free: backend/core evicts page 0\<close>
  have r1: "resident_pages (page_table quota_reached ! 0) 2 = [0]"
    by (simp add: quota_reached_def resident_pages_def py_range_def PTEntry_def upt_rec)
  have h1: "(0::int) \<le> 0" "0 < int (length (processes quota_reached))"
    "length (page_table quota_reached) = length (processes quota_reached)"
    "(0::int) \<le> 1" "1 < m (processes quota_reached ! nat 0)"
    "m (processes quota_reached ! nat 0) \<le> int (length (page_table quota_reached ! nat 0))"
    "\<not> valid (page_table quota_reached ! nat 0 ! nat 1)"
    by (simp_all add: quota_reached_def PTEntry_def)
  have m1: "m (processes quota_reached ! 0) = 2" by (simp add: quota_reached_def)
  have b1: "\<forall>x \<in> set (resident_pages (page_table quota_reached ! nat 0)
                        (m (processes quota_reached ! nat 0))).
                   -1 < time (page_table quota_reached ! nat 0 ! nat x) \<and>
                   time (page_table quota_reached ! nat 0 ! nat x) < sys_maxsize \<and>
                   frame (page_table quota_reached ! nat 0 ! nat x) < sys_maxsize \<and>
                   frequency (page_table quota_reached ! nat 0 ! nat x) < sys_maxsize"
    using r1 by (simp add: m1) (simp add: quota_reached_def sys_maxsize_def)
  have f1: "handle_page_fault quota_reached 0 1 = Some (0, quota_evicted)"
    by code_simp
  have g1: "handle_page_fault_basic quota_reached 0 1 = Some (0, quota_evicted)"
    by code_simp
  have s1: "\<not> (enable_shared_memory quota_reached \<and> 1 \<in> shared_page_numbers quota_reached)
       \<or> find_sharer (page_table quota_reached) (enumerate (processes quota_reached)) 0 1 = Some None"
    by (simp add: quota_reached_def)
  have c1: "free_frames quota_reached = [] \<or>
            allocount (processes quota_reached ! nat 0) \<le> usecount (processes quota_reached ! nat 0)"
    by (simp add: quota_reached_def)
  have ne1: "resident_pages (page_table quota_reached ! nat 0) (m (processes quota_reached ! nat 0)) \<noteq> []"
    using r1 by (simp add: m1)
  note t1 = page_fault_evicts_or_allocates[OF h1 b1, unfolded Let_def]
  note k1 = t1[THEN conjunct1, THEN spec, THEN spec, THEN mp, OF conjI, OF f1 s1]
  note e1 = k1[THEN conjunct2, THEN conjunct1, THEN mp, OF c1]
  have a1: "free_frames quota_evicted = free_frames quota_reached"
    by (rule e1[THEN conjunct1])
  have a2: "processes quota_evicted = processes quota_reached"
    by (rule e1[THEN conjunct2, THEN conjunct1])
  from e1[THEN conjunct2, THEN conjunct2, THEN mp, OF ne1] obtain v where
    cv: "chosen_victim (algorithm quota_reached) (page_table quota_reached ! nat 0)
           (m (processes quota_reached ! nat 0)) v"
    and fv: "0 = frame (page_table quota_reached ! nat 0 ! nat v)"
    by blast
  have alg1: "algorithm quota_reached = LRU" by (simp add: quota_reached_def)
  have cv': "chosen_victim LRU (page_table quota_reached ! 0) 2 v"
    using cv by (simp add: m1 alg1)
  have "v \<in> set (resident_pages (page_table quota_reached ! 0) 2)"
    using cv' by (simp add: chosen_victim_def)
  then have v0: "v = 0" by (simp add: r1)
  have iv: "\<not> valid (page_table quota_evicted ! 0 ! nat v)"
    unfolding v0 by (simp add: quota_evicted_def)
  have a3: "\<exists>v. chosen_victim LRU (page_table quota_reached ! 0) 2 v
          \<and> 0 = frame (page_table quota_reached ! 0 ! nat v)
          \<and> \<not> valid (page_table quota_evicted ! 0 ! nat v)"
    using cv' fv iv by auto
  \<comment> \<open>one process below its quota with free frames: python/core allocates\<close>
  have h2: "(0::int) \<le> 0" "0 < int (length (processes one_faulted))"
    "length (page_table one_faulted) = length (processes one_faulted)"
    "(0::int) \<le> 0" "0 < m (processes one_faulted ! nat 0)"
    "m (processes one_faulted ! nat 0) \<le> int (length (page_table one_faulted ! nat 0))"
    "\<not> valid (page_table one_faulted ! nat 0 ! nat 0)"
    by (simp_all add: one_faulted_def PTEntry_def)
  have b2: "\<forall>x \<in> set (resident_pages (page_table one_faulted ! nat 0)
                        (m (processes one_faulted ! nat 0))).
                   -1 < time (page_table one_faulted ! nat 0 ! nat x) \<and>
                   time (page_table one_faulted ! nat 0 ! nat x) < sys_maxsize \<and>
                   frame (page_table one_faulted ! nat 0 ! nat x) < sys_maxsize \<and>
                   frequency (page_table one_faulted ! nat 0 ! nat x) < sys_maxsize"
    by (simp add: one_faulted_def resident_pages_def py_range_def PTEntry_def upt_rec)
  have f2: "handle_page_fault one_faulted 0 0 = Some (0, one_resident)"
    by code_simp
  have g2: "handle_page_fault_basic one_faulted 0 0 = Some (0, one_resident)"
    by code_simp
  have c2: "\<not> (free_frames one_faulted = [] \<or>
            allocount (processes one_faulted ! nat 0) \<le> usecount (processes one_faulted ! nat 0))"
    by (simp add: one_faulted_def)
  note t2 = page_fault_evicts_or_allocates[OF h2 b2, unfolded Let_def]
  note k2 = t2[THEN conjunct2, THEN spec, THEN spec, THEN mp, OF g2]
  note e2 = k2[THEN conjunct2, THEN conjunct2, THEN mp, OF c2]
  have a4: "0 = last (free_frames one_faulted)"
    by (rule e2[THEN conjunct1])
  have a5: "free_frames one_resident = butlast (free_frames one_faulted)"
    by (rule e2[THEN conjunct2, THEN conjunct1])
  \<comment> \<open>process 1 with quota 0 and no page: the eviction path, nothing to evict\<close>
  have r3: "resident_pages (page_table (no_page_held LRU) ! 1) 1 = []"
    by (simp add: no_page_held_def resident_pages_def py_range_def PTEntry_def upt_rec)
  have h3: "(0::int) \<le> 1" "1 < int (length (processes (no_page_held LRU)))"
    "length (page_table (no_page_held LRU)) = length (processes (no_page_held LRU))"
    "(0::int) \<le> 0" "0 < m (processes (no_page_held LRU) ! nat 1)"
    "m (processes (no_page_held LRU) ! nat 1) \<le> int (length (page_table (no_page_held LRU) ! nat 1))"
    "\<not> valid (page_table (no_page_held LRU) ! nat 1 ! nat 0)"
    by (simp_all add: no_page_held_def PTEntry_def)
  have b3: "\<forall>x \<in> set (resident_pages (page_table (no_page_held LRU) ! nat 1)
                        (m (processes (no_page_held LRU) ! nat 1))).
                   -1 < time (page_table (no_page_held LRU) ! nat 1 ! nat x) \<and>
                   time (page_table (no_page_held LRU) ! nat 1 ! nat x) < sys_maxsize \<and>
                   frame (page_table (no_page_held LRU) ! nat 1 ! nat x) < sys_maxsize \<and>
                   frequency (page_table (no_page_held LRU) ! nat 1 ! nat x) < sys_maxsize"
    by (simp add: no_page_held_def resident_pages_def py_range_def PTEntry_def upt_rec)
  have g3: "handle_page_fault_basic (no_page_held LRU) 1 0 = Some (-1, no_page_served LRU)"
    by code_simp
  have c3: "free_frames (no_page_held LRU) = [] \<or>
            allocount (processes (no_page_held LRU) ! nat 1) \<le> usecount (processes (no_page_held LRU) ! nat 1)"
    by (simp add: no_page_held_def)
  note t3 = page_fault_evicts_or_allocates[OF h3 b3, unfolded Let_def]
  note k3 = t3[THEN conjunct2, THEN spec, THEN spec, THEN mp, OF g3]
  note e3 = k3[THEN conjunct2, THEN conjunct1, THEN mp, OF c3]
  have a6: "free_frames (no_page_served LRU) = free_frames (no_page_held LRU)"
    by (rule e3[THEN conjunct1])
  have a7: "processes (no_page_served LRU) = processes (no_page_held LRU)"
    by (rule e3[THEN conjunct2, THEN conjunct1])
  have u: "map usecount (processes one_faulted) = [0]" "map usecount (processes one_resident) = [1]"
    "free_frames quota_reached \<noteq> []"
    "allocount (processes quota_reached ! 0) \<le> usecount (processes quota_reached ! 0)"
    "allocount (processes (no_page_held LRU) ! 1) \<le> usecount (processes (no_page_held LRU) ! 1)"
    by (simp_all add: one_faulted_def one_resident_def quota_reached_def no_page_held_def)
  show ?thesis
    by (intro conjI f1 g1 u r1 a1 a2 a3 f2 g2 a4 a5 g3 r3 a6 a7)
qed

section \<open>Frame accounting under sharing\<close>

text \<open>
  Claim C2 asks that the free pool and the usage counters always add up to the number
  of frames, and that no frame is free and assigned at once.  On backend/core with
  sharing enabled, Scenario B breaks both.  The calls below are the ones the main loop
  issues for two processes that each reference page 0 once: both fault, process 0 is
  given frame 0, process 1 is mapped to the same frame 0 without a change of its usage
  counter; both then hit and complete.  \<open>free_process_frames\<close> returns the frame of
  every valid entry, so after process 0 has completed frame 0 is in the free pool
  while the entry of process 1 still maps it, and after process 1 has completed the
  free pool is \<open>[1, 0, 0]\<close>: three entries for two frames, frame 0 twice, all usage
  counters 0.
\<close>

theorem shared_frame_freed_twice:
  "do {
     (fr1, e1, s1) \<leftarrow> handle_page_request scenario_B_start 0 0 ''READ'';
     (f1, s2) \<leftarrow> handle_page_fault s1 0 0;
     (fr2, e2, s3) \<leftarrow> handle_page_request s2 1 0 ''READ'';
     (f2, s4) \<leftarrow> handle_page_fault s3 1 0;
     (fr3, e3, s5) \<leftarrow> handle_page_request s4 0 0 ''READ'';
     s6 \<leftarrow> free_process_frames s5 0;
     (fr4, e4, s7) \<leftarrow> handle_page_request s6 1 0 ''READ'';
     s8 \<leftarrow> free_process_frames s7 1;
     Some ([e1, e2, e3, e4], f1, f2,
           free_frames s4, map usecount (processes s4),
           free_frames s6, map usecount (processes s6),
           map_option (\<lambda>e. (valid e, frame e)) (get_entry (page_table s6) 1 0),
           free_frames s8, map usecount (processes s8), length (physical_memory s8))
   } = Some ([PageFault, PageFault, TlbHit, TlbHit], 0, 0,
             [1], [1, 0],
             [1, 0], [0, 0],
             Some (True, 0),
             [1, 0, 0], [0, 0], 2)"
  by code_simp

section \<open>Victim selection\<close>

text \<open>
  An eviction for process \<open>p\<close> scans the valid entries of pages \<open>0 .. m-1\<close> of that
  process only.  When at least one of them has a key inside the start values of the scan
  (a time above -1 and below \<open>sys.maxsize\<close>, a frame and a frequency below
  \<open>sys.maxsize\<close>), there is exactly one chosen victim in the sense of the replacement
  table (LRU smallest last access time, MRU largest, FIFO smallest frame held, LFU
  smallest frequency, ties to the lowest page number), and \<open>_evict_page\<close> returns the
  frame of that victim, with the victim's entry invalidated, nothing else in any page
  table changed, and no TLB entry left that matches \<open>(p, victim)\<close>.  The first lemma
  is \<open>_evict_page\<close> of backend/core, the second the one of python/core, where
  every policy other than FIFO and LFU is LRU.
\<close>

lemma evict_page_chooses_victim:
  assumes "0 \<le> p" and "p < int (length (processes st))"
    and "length (page_table st) = length (processes st)"
    and "m (processes st ! nat p) \<le> int (length (page_table st ! nat p))"
    and "n \<in> set (resident_pages (page_table st ! nat p) (m (processes st ! nat p)))"
    and "-1 < time (page_table st ! nat p ! nat n)"
    and "time (page_table st ! nat p ! nat n) < sys_maxsize"
    and "frame (page_table st ! nat p ! nat n) < sys_maxsize"
    and "frequency (page_table st ! nat p ! nat n) < sys_maxsize"
  shows "\<exists>v. chosen_victim (algorithm st) (page_table st ! nat p) (m (processes st ! nat p)) v \<and>
            (\<forall>w. chosen_victim (algorithm st) (page_table st ! nat p) (m (processes st ! nat p)) w
                  \<longrightarrow> w = v) \<and>
            evict_page st p =
              Some (frame (page_table st ! nat p ! nat v),
                    st\<lparr>page_table := (page_table st)[nat p :=
                          (page_table st ! nat p)[nat v := (page_table st ! nat p ! nat v)\<lparr>valid := False\<rparr>]],
                       tlb := tlb_invalidate_page (tlb st) p v\<rparr>) \<and>
            (\<forall>e \<in> set (tlb_invalidate_page (tlb st) p v). \<not> tlb_match e p v)"
proof -
  from evict_page_victim[OF assms] obtain v where
    v: "chosen_victim (algorithm st) (page_table st ! nat p) (m (processes st ! nat p)) v \<and>
        evict_page st p =
              Some (frame (page_table st ! nat p ! nat v),
                    st\<lparr>page_table := (page_table st)[nat p :=
                          (page_table st ! nat p)[nat v := (page_table st ! nat p ! nat v)\<lparr>valid := False\<rparr>]],
                       tlb := tlb_invalidate_page (tlb st) p v\<rparr>)" ..
  have u: "\<forall>w. chosen_victim (algorithm st) (page_table st ! nat p) (m (processes st ! nat p)) w
                  \<longrightarrow> w = v"
    using chosen_victim_unique v by blast
  have t: "\<forall>e \<in> set (tlb_invalidate_page (tlb st) p v). \<not> tlb_match e p v"
    using tlb_invalidate_page_no_match by blast
  show ?thesis
    by (rule exI[of _ v]) (intro conjI v[THEN conjunct1] v[THEN conjunct2] u t)
qed

lemma evict_page_basic_chooses_victim:
  assumes "0 \<le> p" and "p < int (length (processes st))"
    and "length (page_table st) = length (processes st)"
    and "m (processes st ! nat p) \<le> int (length (page_table st ! nat p))"
    and "n \<in> set (resident_pages (page_table st ! nat p) (m (processes st ! nat p)))"
    and "-1 < time (page_table st ! nat p ! nat n)"
    and "time (page_table st ! nat p ! nat n) < sys_maxsize"
    and "frame (page_table st ! nat p ! nat n) < sys_maxsize"
    and "frequency (page_table st ! nat p ! nat n) < sys_maxsize"
  shows "\<exists>v. chosen_victim (if algorithm st = MRU then LRU else algorithm st) (page_table st ! nat p) (m (processes st ! nat p)) v \<and>
            (\<forall>w. chosen_victim (if algorithm st = MRU then LRU else algorithm st) (page_table st ! nat p) (m (processes st ! nat p)) w
                  \<longrightarrow> w = v) \<and>
            evict_page_basic st p =
              Some (frame (page_table st ! nat p ! nat v),
                    st\<lparr>page_table := (page_table st)[nat p :=
                          (page_table st ! nat p)[nat v := (page_table st ! nat p ! nat v)\<lparr>valid := False\<rparr>]],
                       tlb := tlb_invalidate_page (tlb st) p v\<rparr>) \<and>
            (\<forall>e \<in> set (tlb_invalidate_page (tlb st) p v). \<not> tlb_match e p v)"
proof -
  from evict_page_basic_victim[OF assms] obtain v where
    v: "chosen_victim (if algorithm st = MRU then LRU else algorithm st) (page_table st ! nat p) (m (processes st ! nat p)) v \<and>
        evict_page_basic st p =
              Some (frame (page_table st ! nat p ! nat v),
                    st\<lparr>page_table := (page_table st)[nat p :=
                          (page_table st ! nat p)[nat v := (page_table st ! nat p ! nat v)\<lparr>valid := False\<rparr>]],
                       tlb := tlb_invalidate_page (tlb st) p v\<rparr>)" ..
  have u: "\<forall>w. chosen_victim (if algorithm st = MRU then LRU else algorithm st) (page_table st ! nat p) (m (processes st ! nat p)) w
                  \<longrightarrow> w = v"
    using chosen_victim_unique v by blast
  have t: "\<forall>e \<in> set (tlb_invalidate_page (tlb st) p v). \<not> tlb_match e p v"
    using tlb_invalidate_page_no_match by blast
  show ?thesis
    by (rule exI[of _ v]) (intro conjI v[THEN conjunct1] v[THEN conjunct2] u t)
qed

text \<open>
  An example under MRU: of the pages 0 (last used at time 2) and 1 (last used at time
  4) of \<open>two_resident\<close>, page 1 is evicted and its frame 1 returned.
\<close>

lemma evict_page_chooses_victim_example:
  "resident_pages (page_table two_resident ! 0) 3 = [0, 1]
   \<and> chosen_victim MRU (page_table two_resident ! 0) 3 1
   \<and> evict_page two_resident 0 =
       Some (1, two_resident
                 \<lparr>page_table := [[\<lparr>frame = 0, valid = True, time = 2, frequency = 2,
                                     read_only = False, shared = False\<rparr>,
                                   \<lparr>frame = 1, valid = False, time = 4, frequency = 2,
                                     read_only = False, shared = False\<rparr>,
                                   PTEntry]],
                  tlb := [\<lparr>tlb_pid = 0, pageno = 1, frameno = 1, tlb_time = 4,
                           tlb_valid = False\<rparr>]\<rparr>)"
proof -
  have r: "resident_pages (page_table two_resident ! 0) 3 = [0, 1]"
    by (simp add: resident_pages_def two_resident_def py_range_def PTEntry_def upt_rec)
  have c: "chosen_victim MRU (page_table two_resident ! 0) 3 1"
    by (simp add: chosen_victim_def r policy_key_def) (simp add: two_resident_def)
  have h: "(0::int) \<le> 0" "0 < int (length (processes two_resident))"
    "length (page_table two_resident) = length (processes two_resident)"
    "m (processes two_resident ! nat 0) \<le> int (length (page_table two_resident ! nat 0))"
    "0 \<in> set (resident_pages (page_table two_resident ! nat 0) (m (processes two_resident ! nat 0)))"
    "-1 < time (page_table two_resident ! nat 0 ! nat 0)"
    "time (page_table two_resident ! nat 0 ! nat 0) < sys_maxsize"
    "frame (page_table two_resident ! nat 0 ! nat 0) < sys_maxsize"
    "frequency (page_table two_resident ! nat 0 ! nat 0) < sys_maxsize"
    using r by (simp_all add: two_resident_def sys_maxsize_def)
  from evict_page_chooses_victim[OF h] obtain v where
    v: "chosen_victim (algorithm two_resident) (page_table two_resident ! nat 0)
          (m (processes two_resident ! nat 0)) v"
       "\<forall>w. chosen_victim (algorithm two_resident) (page_table two_resident ! nat 0)
          (m (processes two_resident ! nat 0)) w \<longrightarrow> w = v"
       "evict_page two_resident 0 =
              Some (frame (page_table two_resident ! nat 0 ! nat v),
                    two_resident\<lparr>page_table := (page_table two_resident)[nat 0 :=
                          (page_table two_resident ! nat 0)[nat v :=
                             (page_table two_resident ! nat 0 ! nat v)\<lparr>valid := False\<rparr>]],
                       tlb := tlb_invalidate_page (tlb two_resident) 0 v\<rparr>)"
    by blast
  have "chosen_victim (algorithm two_resident) (page_table two_resident ! nat 0)
          (m (processes two_resident ! nat 0)) 1"
    using c by (simp add: two_resident_def)
  with v(2) have v1: "v = 1" by blast
  have e: "evict_page two_resident 0 =
       Some (1, two_resident
                 \<lparr>page_table := [[\<lparr>frame = 0, valid = True, time = 2, frequency = 2,
                                     read_only = False, shared = False\<rparr>,
                                   \<lparr>frame = 1, valid = False, time = 4, frequency = 2,
                                     read_only = False, shared = False\<rparr>,
                                   PTEntry]],
                  tlb := [\<lparr>tlb_pid = 0, pageno = 1, frameno = 1, tlb_time = 4,
                           tlb_valid = False\<rparr>]\<rparr>)"
    using v(3) unfolding v1
    by (simp add: two_resident_def tlb_invalidate_page_def tlb_match_def)
  from r c e show ?thesis by blast
qed

text \<open>
  Claim C3 says that at every eviction of a run the victim is found among the valid
  entries of the faulting process, that its entry is invalidated and that the frame it
  frees is returned.  In the run of two processes with three frames and the reference
  strings \<open>[-3]\<close> and \<open>[0]\<close>, under any of the four policies, process 1 faults on
  page 0 with quota 0 and usage 0, so \<open>handle_page_fault\<close> calls \<open>_evict_page\<close>
  although the process holds no page.  The scan visits no valid entry and ends with
  \<open>victim_page = -1\<close>; the entry \<open>page_table[1][-1]\<close>, which is the invalid entry of
  page 0, is taken as the victim, no entry and no TLB slot changes, and the value
  returned as the freed frame is -1, the frame field of an entry that never held a
  frame.  Both \<open>_evict_page\<close> functions do this, and both \<open>handle_page_fault\<close>
  functions then map page 0 to frame -1.
\<close>

theorem eviction_without_resident_page:
  "do {
     s0 \<leftarrow> configure draw 2 1 3 1 alg [[-3], [0]];
     s1 \<leftarrow> turn s0;
     (fr, ev, st) \<leftarrow> handle_page_request_basic (the_mmu s1) 1 0;
     Some (ready_queue s1, ev, st)
   } = Some ([1], PageFault, no_page_held alg)
   \<and> free_frames (no_page_held alg) = [2, 1, 0]
   \<and> allocount (processes (no_page_held alg) ! 1) = 0
   \<and> usecount (processes (no_page_held alg) ! 1) = 0
   \<and> map valid (page_table (no_page_held alg) ! 1) = [False]
   \<and> resident_pages (page_table (no_page_held alg) ! 1) (m (processes (no_page_held alg) ! 1)) = []
   \<and> evict_page_basic (no_page_held alg) 1 = Some (-1, no_page_held alg)
   \<and> evict_page (no_page_held alg) 1 = Some (-1, no_page_held alg)
   \<and> handle_page_fault_basic (no_page_held alg) 1 0 = Some (-1, no_page_served alg)
   \<and> handle_page_fault (no_page_held alg) 1 0 = Some (-1, no_page_served alg)"
  by (induct alg) code_simp+

section \<open>A hit on a resident page\<close>

text \<open>
  Claim C4 asks that every hit refreshes the last access time of the page-table entry and
  increments its frequency.  \<open>handle_page_request\<close> of python/core returns on a TLB hit
  before it reads the page table: after the fault on page 0 was served at time 1, the
  retried reference (time 2) is a TLB hit that leaves the entry with time 1 and
  frequency 1.  Only the clock, the TLB-hit counter and the time of the TLB entry change.
\<close>

theorem tlb_hit_leaves_page_table_entry_stale:
  "handle_page_request_basic one_resident 0 0 =
     Some (0, TlbHit,
           one_resident\<lparr>timestamp := 2, tlb_hit_count := 1,
                         tlb := [\<lparr>tlb_pid = 0, pageno = 0, frameno = 0, tlb_time = 2,
                                  tlb_valid = True\<rparr>]\<rparr>)
   \<and> map_option (\<lambda>e. (time e, frequency e)) (get_entry (page_table one_resident) 0 0) = Some (1, 1)"
  by code_simp

text \<open>
  \<open>handle_page_request\<close> of backend/core does what the claim says on the same state:
  the entry gets time 2 and frequency 2.
\<close>

lemma backend_hit_refreshes_page_table_entry:
  "handle_page_request one_resident 0 0 ''READ'' =
     Some (0, TlbHit,
           one_resident\<lparr>timestamp := 2, tlb_hit_count := 1,
                         page_table := [[\<lparr>frame = 0, valid = True, time = 2, frequency = 2,
                                            read_only = False, shared = False\<rparr>, PTEntry]],
                         tlb := [\<lparr>tlb_pid = 0, pageno = 0, frameno = 0, tlb_time = 2,
                                  tlb_valid = True\<rparr>]\<rparr>)"
  by code_simp

section \<open>Retry after a page fault\<close>



section \<open>Sharing a resident page\<close>

text \<open>
  Claim C6.  Sharing is enabled, page \<open>n\<close> is shareable, process \<open>p\<close> faults on it, and
  some other process \<open>q\<close> holds a valid mapping for it (the page tables cover the
  declared pages, the TLB is not empty).  Then \<open>handle_page_fault\<close> of backend/core
  returns the frame of another process \<open>i\<close> that holds the page.  The free pool, the
  process control blocks (so quota and usage counter) and the physical-memory map are
  unchanged; the page tables change at two entries only: the entry of \<open>p\<close> becomes a
  valid read-only shared mapping to that frame, the entry of \<open>i\<close> becomes read-only and
  shared; so nothing is allocated and nothing is evicted.  In the resulting state a WRITE by
  \<open>p\<close> or by \<open>i\<close> to the page returns \<open>ProtectionFault\<close> with the sentinel -1 and changes the
  clock only.
\<close>

theorem sharing_installs_read_only_mapping:
  assumes "enable_shared_memory st" and "n \<in> shared_page_numbers st"
    and "length (page_table st) = length (processes st)"
    and "\<forall>r < length (processes st). m (processes st ! r) \<le> int (length (page_table st ! r))"
    and "0 \<le> p" and "p < int (length (processes st))"
    and "0 \<le> n" and "n < m (processes st ! nat p)"
    and "q < length (processes st)" and "int q \<noteq> p" and "n < m (processes st ! q)"
    and "valid (page_table st ! q ! nat n)"
    and "tlb st \<noteq> []"
  shows "\<exists>i st'. i < length (processes st) \<and> int i \<noteq> p \<and> valid (page_table st ! i ! nat n) \<and>
           handle_page_fault st p n = Some (frame (page_table st ! i ! nat n), st') \<and>
           free_frames st' = free_frames st \<and> processes st' = processes st \<and>
           physical_memory st' = physical_memory st \<and>
           page_table st' =
             (page_table st)
               [nat p := (page_table st ! nat p)
                  [nat n := shared_entry (page_table st ! nat p ! nat n)
                              (frame (page_table st ! i ! nat n)) (timestamp st)],
                i := (page_table st ! i)
                  [nat n := (page_table st ! i ! nat n)\<lparr>read_only := True, shared := True\<rparr>]] \<and>
           (\<forall>a. is_write a \<longrightarrow>
              handle_page_request st' p n a =
                Some (-1, ProtectionFault, st'\<lparr>timestamp := timestamp st' + 1\<rparr>) \<and>
              handle_page_request st' (int i) n a =
                Some (-1, ProtectionFault, st'\<lparr>timestamp := timestamp st' + 1\<rparr>))"
proof -
  let ?pt = "page_table st" and ?ps = "processes st"
  from shared_fault[OF assms] obtain i tlb' where
    i: "i < length ?ps" "int i \<noteq> p" "n < m (?ps ! i)" "valid (?pt ! i ! nat n)"
    and hf: "handle_page_fault st p n =
              Some (frame (?pt ! i ! nat n),
                    st\<lparr>page_table :=
                         ?pt[nat p := (?pt ! nat p)
                              [nat n := shared_entry (?pt ! nat p ! nat n)
                                          (frame (?pt ! i ! nat n)) (timestamp st)],
                            i := (?pt ! i)
                              [nat n := (?pt ! i ! nat n)\<lparr>read_only := True, shared := True\<rparr>]],
                       tlb := tlb'\<rparr>)"
    by blast
  define pt' where "pt' = ?pt[nat p := (?pt ! nat p)
                              [nat n := shared_entry (?pt ! nat p ! nat n)
                                          (frame (?pt ! i ! nat n)) (timestamp st)],
                            i := (?pt ! i)
                              [nat n := (?pt ! i ! nat n)\<lparr>read_only := True, shared := True\<rparr>]]"
  define st' where "st' = st\<lparr>page_table := pt', tlb := tlb'\<rparr>"
  have ip: "i \<noteq> nat p" using i(2) assms(5) by auto
  have np: "nat p < length ?ps" using assms(5,6) by simp
  have lp: "n < int (length (?pt ! nat p))" using assms(4,8) np by fastforce
  have li: "n < int (length (?pt ! i))" using assms(4) i(1,3) by fastforce
  have rp: "pt' ! nat p = (?pt ! nat p)[nat n := shared_entry (?pt ! nat p ! nat n)
                                          (frame (?pt ! i ! nat n)) (timestamp st)]"
    using ip np assms(3) by (simp add: pt'_def)
  have ri: "pt' ! i = (?pt ! i)[nat n := (?pt ! i ! nat n)\<lparr>read_only := True, shared := True\<rparr>]"
    using i(1) assms(3) by (simp add: pt'_def)
  have ep: "valid (pt' ! nat p ! nat n)" "read_only (pt' ! nat p ! nat n)"
    using lp assms(7) by (simp_all add: rp shared_entry_def)
  have ei: "valid (pt' ! i ! nat n)" "read_only (pt' ! i ! nat n)"
    using li assms(7) i(4) by (simp_all add: ri)
  have prot_p: "handle_page_request st' p n a =
                  Some (-1, ProtectionFault, st'\<lparr>timestamp := timestamp st' + 1\<rparr>)" if "is_write a" for a
    by (rule handle_page_request_protection)
       (use assms(3,5,6,7,8) lp ep that in \<open>simp_all add: st'_def rp\<close>, simp_all add: pt'_def)
  have prot_i: "handle_page_request st' (int i) n a =
                  Some (-1, ProtectionFault, st'\<lparr>timestamp := timestamp st' + 1\<rparr>)" if "is_write a" for a
    by (rule handle_page_request_protection)
       (use assms(3,7) i(1,3) li ei that in \<open>simp_all add: st'_def ri\<close>, simp_all add: pt'_def)
  have hf': "handle_page_fault st p n = Some (frame (?pt ! i ! nat n), st')"
    using hf by (simp add: st'_def pt'_def)
  have fr: "free_frames st' = free_frames st" "processes st' = processes st"
    "physical_memory st' = physical_memory st" "page_table st' = pt'"
    by (simp_all add: st'_def)
  show ?thesis
    apply (rule exI[of _ i], rule exI[of _ st'])
    using i(1,2,4) hf' fr prot_p prot_i unfolding pt'_def
    by simp
qed


theorem sharing_installs_read_only_mapping_witness:
  "handle_page_fault scenario_B_faulted 1 0 = Some (0, scenario_B_shared)
   \<and> free_frames scenario_B_shared = free_frames scenario_B_faulted
   \<and> processes scenario_B_shared = processes scenario_B_faulted
   \<and> handle_page_request scenario_B_shared 1 0 ''WRITE'' =
       Some (-1, ProtectionFault, scenario_B_shared\<lparr>timestamp := 3\<rparr>)
   \<and> handle_page_request scenario_B_shared 0 0 ''WRITE'' =
       Some (-1, ProtectionFault, scenario_B_shared\<lparr>timestamp := 3\<rparr>)"
proof -
  have h: "enable_shared_memory scenario_B_faulted" "0 \<in> shared_page_numbers scenario_B_faulted"
    "length (page_table scenario_B_faulted) = length (processes scenario_B_faulted)"
    "\<forall>r < length (processes scenario_B_faulted).
        m (processes scenario_B_faulted ! r) \<le> int (length (page_table scenario_B_faulted ! r))"
    "(0::int) \<le> 1" "1 < int (length (processes scenario_B_faulted))"
    "(0::int) \<le> 0" "0 < m (processes scenario_B_faulted ! nat 1)"
    "0 < length (processes scenario_B_faulted)" "int 0 \<noteq> 1"
    "0 < m (processes scenario_B_faulted ! 0)"
    "valid (page_table scenario_B_faulted ! 0 ! nat 0)"
    "tlb scenario_B_faulted \<noteq> []"
    by (simp_all add: scenario_B_faulted_def less_Suc_eq)
  have hf: "handle_page_fault scenario_B_faulted 1 0 = Some (0, scenario_B_shared)"
    by code_simp
  have w: "is_write ''WRITE''" by (simp add: is_write_def)
  from sharing_installs_read_only_mapping[OF h] obtain i st' where
    a: "handle_page_fault scenario_B_faulted 1 0 =
          Some (frame (page_table scenario_B_faulted ! i ! nat 0), st')"
    and b: "free_frames st' = free_frames scenario_B_faulted" "processes st' = processes scenario_B_faulted"
    and c: "\<forall>a. is_write a \<longrightarrow>
              handle_page_request st' 1 0 a =
                Some (-1, ProtectionFault, st'\<lparr>timestamp := timestamp st' + 1\<rparr>) \<and>
              handle_page_request st' (int i) 0 a =
                Some (-1, ProtectionFault, st'\<lparr>timestamp := timestamp st' + 1\<rparr>)"
    and i: "i < length (processes scenario_B_faulted)" "int i \<noteq> 1"
    by blast
  have st': "st' = scenario_B_shared" using a hf by simp
  have i0: "i = 0" using i by (simp add: scenario_B_faulted_def less_Suc_eq)
  have ts: "timestamp scenario_B_shared + 1 = 3"
    by (simp add: scenario_B_shared_def scenario_B_faulted_def)
  from c w have "handle_page_request st' 1 0 ''WRITE'' =
                Some (-1, ProtectionFault, st'\<lparr>timestamp := timestamp st' + 1\<rparr>)"
     "handle_page_request st' (int i) 0 ''WRITE'' =
                Some (-1, ProtectionFault, st'\<lparr>timestamp := timestamp st' + 1\<rparr>)"
    by blast+
  then show ?thesis using hf b unfolding st' i0 ts by simp
qed

section \<open>Invalid references\<close>

text \<open>
  Claim C7.  Every call of \<open>handle_page_request\<close> (python/core and backend/core) for
  an existing process with a page number below 0 or not below the page count of the
  process returns the sentinel -2 with the event \<open>invalid_reference\<close>, and the state
  after the call is the state before it with the clock advanced by one: page tables,
  TLB, free pool, physical memory and all counters are the same.  In a run of
  python/core (any state reached from \<open>configure\<close> with at least one frame and one TLB
  entry), when the process at the head of the ready queue has such a reference next,
  the turn of the loop does not raise; it completes that process and no other (its
  control block gets \<open>completed\<close> and usage 0, the other control blocks and the page
  tables of the other processes are unchanged, the count of completed processes grows
  by one), it does not re-enqueue the process, and it emits the step of the invalid
  reference followed by the completion step.  If other processes are waiting, the
  loop condition still holds and the next turn does not raise either.
\<close>

theorem invalid_reference_completes_offender:
  assumes conf: "configure draw k max_pages f t alg refs = Some s0"
    and sizes: "1 \<le> f" "1 \<le> t"
    and reach: "turns j s0 = Some s"
    and head: "ready_queue s = p # rest"
    and ci: "current_index (processes (the_mmu s) ! nat p)
               < int (length (reference_string (processes (the_mmu s) ! nat p)))"
    and n: "n = reference_string (processes (the_mmu s) ! nat p)
                  ! nat (current_index (processes (the_mmu s) ! nat p))"
    and bad: "n < 0 \<or> m (processes (the_mmu s) ! nat p) \<le> n"
  shows "(\<forall>st q x access_type.
            (\<exists>pr. py_get (processes st) q = Some pr \<and> (x < 0 \<or> m pr \<le> x)) \<longrightarrow>
            handle_page_request_basic st q x
              = Some (-2, InvalidReference, st\<lparr>timestamp := timestamp st + 1\<rparr>) \<and>
            handle_page_request st q x access_type
              = Some (-2, InvalidReference, st\<lparr>timestamp := timestamp st + 1\<rparr>))
         \<and> handle_page_request_basic (the_mmu s) p n
              = Some (-2, InvalidReference, (the_mmu s)\<lparr>timestamp := timestamp (the_mmu s) + 1\<rparr>)
         \<and> (\<exists>s'. turn s = Some s' \<and>
                 (\<forall>fuel. run_loop (Suc fuel) s = run_loop fuel s') \<and>
                 ready_queue s' = rest \<and>
                 processes (the_mmu s') =
                   (processes (the_mmu s))[nat p := (processes (the_mmu s) ! nat p)
                                              \<lparr>usecount := 0, completed := True\<rparr>] \<and>
                 (\<forall>i. i \<noteq> nat p \<longrightarrow> page_table (the_mmu s') ! i = page_table (the_mmu s) ! i) \<and>
                 completed_count s' = completed_count s + 1 \<and>
                 total_processes s' = total_processes s \<and>
                 steps s' = steps s @
                   [SimulationStep (timestamp (the_mmu s) + 1) p n InvalidReference (-2),
                    SimulationStep (timestamp (the_mmu s) + 1) p (-1) ProcessComplete (-1)] \<and>
                 (rest \<noteq> [] \<longrightarrow> \<not> is_simulation_complete s' \<and> (\<exists>s''. turn s' = Some s'')))"
proof -
  have wf: "wf_implementor s"
    using turns_wf[OF configure_wf[OF conf sizes] reach] .
  note h = wf_implementor_head[OF wf head]
  let ?s = "s\<lparr>ready_queue := rest\<rparr>"
  have gen: "\<forall>st q x access_type.
            (\<exists>pr. py_get (processes st) q = Some pr \<and> (x < 0 \<or> m pr \<le> x)) \<longrightarrow>
            handle_page_request_basic st q x
              = Some (-2, InvalidReference, st\<lparr>timestamp := timestamp st + 1\<rparr>) \<and>
            handle_page_request st q x access_type
              = Some (-2, InvalidReference, st\<lparr>timestamp := timestamp st + 1\<rparr>)"
    using handle_page_request_invalid by blast
  have gp: "py_get (processes (the_mmu s)) p = Some (processes (the_mmu s) ! nat p)"
    using h(2,3) by (simp add: py_get_nonneg)
  have rq: "handle_page_request_basic (the_mmu s) p n
              = Some (-2, InvalidReference, (the_mmu s)\<lparr>timestamp := timestamp (the_mmu s) + 1\<rparr>)"
    by (rule handle_page_request_invalid(1)[OF gp bad])
  have q: "q < int (length (processes (the_mmu ?s)))" if "q < int (length (processes (the_mmu s)))" for q
    using that by simp
  have hs: "p < int (length (processes (the_mmu ?s)))"
    "\<not> completed (processes (the_mmu ?s) ! nat p)" "p \<notin> set (ready_queue ?s)"
    "current_index (processes (the_mmu ?s) ! nat p)
               < int (length (reference_string (processes (the_mmu ?s) ! nat p)))"
    "n = reference_string (processes (the_mmu ?s) ! nat p)
                  ! nat (current_index (processes (the_mmu ?s) ! nat p))"
    "n < 0 \<or> m (processes (the_mmu ?s) ! nat p) \<le> n"
    using h ci n bad by simp_all
  from loop_body_invalid[OF h(1,2) hs] obtain s' where
    c: "loop_body ?s p = Some s'" "wf_implementor s'"
       "ready_queue s' = ready_queue ?s"
       "processes (the_mmu s') =
             (processes (the_mmu ?s))[nat p := (processes (the_mmu ?s) ! nat p)
                                        \<lparr>usecount := 0, completed := True\<rparr>]"
       "\<forall>i. i \<noteq> nat p \<longrightarrow> page_table (the_mmu s') ! i = page_table (the_mmu ?s) ! i"
       "completed_count s' = completed_count ?s + 1"
       "total_processes s' = total_processes ?s"
       "steps s' = steps ?s @
             [SimulationStep (timestamp (the_mmu ?s) + 1) p n InvalidReference (-2),
              SimulationStep (timestamp (the_mmu ?s) + 1) p (-1) ProcessComplete (-1)]"
    by blast
  have t: "turn s = Some s'" using c(1) by (simp add: turn_head[OF wf head])
  have rl: "\<forall>fuel. run_loop (Suc fuel) s = run_loop fuel s'"
    using run_loop_turn[OF t] by blast
  have cont: "\<not> is_simulation_complete s' \<and> (\<exists>s''. turn s' = Some s'')" if ne: "rest \<noteq> []"
  proof -
    from ne obtain q r where qr: "ready_queue s' = q # r" using c(3) by (cases rest) auto
    from wf_implementor_head(6)[OF c(2) qr] turn_wf[OF c(2) qr] show ?thesis by blast
  qed
  have body: "turn s = Some s' \<and>
                 (\<forall>fuel. run_loop (Suc fuel) s = run_loop fuel s') \<and>
                 ready_queue s' = rest \<and>
                 processes (the_mmu s') =
                   (processes (the_mmu s))[nat p := (processes (the_mmu s) ! nat p)
                                              \<lparr>usecount := 0, completed := True\<rparr>] \<and>
                 (\<forall>i. i \<noteq> nat p \<longrightarrow> page_table (the_mmu s') ! i = page_table (the_mmu s) ! i) \<and>
                 completed_count s' = completed_count s + 1 \<and>
                 total_processes s' = total_processes s \<and>
                 steps s' = steps s @
                   [SimulationStep (timestamp (the_mmu s) + 1) p n InvalidReference (-2),
                    SimulationStep (timestamp (the_mmu s) + 1) p (-1) ProcessComplete (-1)] \<and>
                 (rest \<noteq> [] \<longrightarrow> \<not> is_simulation_complete s' \<and> (\<exists>s''. turn s' = Some s''))"
    using t rl c(3,4,5,6,7,8) cont by simp
  show ?thesis
    by (intro conjI gen rq exI[of _ s'] body)
qed

theorem invalid_reference_completes_offender_witness:
  "configure (\<lambda>r. 0) 2 1 3 1 LRU [[-3], [0]] = Some invalid_start
   \<and> ready_queue invalid_start = [0, 1]
   \<and> m (processes (the_mmu invalid_start) ! 0) = -2
   \<and> handle_page_request_basic (the_mmu invalid_start) 0 (-3)
        = Some (-2, InvalidReference,
                (the_mmu invalid_start)\<lparr>timestamp := timestamp (the_mmu invalid_start) + 1\<rparr>)
   \<and> handle_page_request (the_mmu invalid_start) 0 (-3) ''READ''
        = Some (-2, InvalidReference,
                (the_mmu invalid_start)\<lparr>timestamp := timestamp (the_mmu invalid_start) + 1\<rparr>)
   \<and> (\<exists>s'. turn invalid_start = Some s' \<and> ready_queue s' = [1]
           \<and> map completed (processes (the_mmu s')) = [True, False]
           \<and> completed_count s' = 1
           \<and> steps s' = [SimulationStep 1 0 (-3) InvalidReference (-2),
                         SimulationStep 1 0 (-1) ProcessComplete (-1)]
           \<and> (\<exists>s''. turn s' = Some s''))"
proof -
  have c: "configure (\<lambda>r. 0) 2 1 3 1 LRU [[-3], [0]] = Some invalid_start"
    by code_simp
  have sz: "1 \<le> (3::nat)" "1 \<le> (1::nat)" by simp_all
  have r: "turns 0 invalid_start = Some invalid_start" by simp
  have h: "ready_queue invalid_start = 0 # [1]" by (simp add: invalid_start_def)
  have ci: "current_index (processes (the_mmu invalid_start) ! nat 0)
               < int (length (reference_string (processes (the_mmu invalid_start) ! nat 0)))"
    by (simp add: invalid_start_def MMU_def)
  have n: "-3 = reference_string (processes (the_mmu invalid_start) ! nat 0)
                  ! nat (current_index (processes (the_mmu invalid_start) ! nat 0))"
    by (simp add: invalid_start_def MMU_def)
  have bad: "(-3::int) < 0 \<or> m (processes (the_mmu invalid_start) ! nat 0) \<le> -3" by simp
  note T = invalid_reference_completes_offender[OF c sz r h ci n bad]
  have gp: "\<exists>pr. py_get (processes (the_mmu invalid_start)) 0 = Some pr \<and> ((-3::int) < 0 \<or> m pr \<le> -3)"
    by (simp add: invalid_start_def MMU_def py_get_def py_index_def)
  note G = T[THEN conjunct1, THEN spec, THEN spec, THEN spec, THEN spec, THEN mp, OF gp]
  have b: "handle_page_request (the_mmu invalid_start) 0 (-3) ''READ''
        = Some (-2, InvalidReference,
                (the_mmu invalid_start)\<lparr>timestamp := timestamp (the_mmu invalid_start) + 1\<rparr>)"
    by (rule G[THEN conjunct2])
  have a: "handle_page_request_basic (the_mmu invalid_start) 0 (-3)
        = Some (-2, InvalidReference,
                (the_mmu invalid_start)\<lparr>timestamp := timestamp (the_mmu invalid_start) + 1\<rparr>)"
    by (rule T[THEN conjunct2, THEN conjunct1])
  from T[THEN conjunct2, THEN conjunct2] obtain s' where
    s': "turn invalid_start = Some s'" "ready_queue s' = [1]"
        "processes (the_mmu s') =
           (processes (the_mmu invalid_start))[nat 0 := (processes (the_mmu invalid_start) ! nat 0)
                                              \<lparr>usecount := 0, completed := True\<rparr>]"
        "completed_count s' = completed_count invalid_start + 1"
        "steps s' = steps invalid_start @
                   [SimulationStep (timestamp (the_mmu invalid_start) + 1) 0 (-3) InvalidReference (-2),
                    SimulationStep (timestamp (the_mmu invalid_start) + 1) 0 (-1) ProcessComplete (-1)]"
        "[1::int] \<noteq> [] \<longrightarrow> \<not> is_simulation_complete s' \<and> (\<exists>s''. turn s' = Some s'')"
    by blast
  have e: "\<exists>s'. turn invalid_start = Some s' \<and> ready_queue s' = [1]
           \<and> map completed (processes (the_mmu s')) = [True, False]
           \<and> completed_count s' = 1
           \<and> steps s' = [SimulationStep 1 0 (-3) InvalidReference (-2),
                         SimulationStep 1 0 (-1) ProcessComplete (-1)]
           \<and> (\<exists>s''. turn s' = Some s'')"
    using s' by (intro exI[of _ s']) (simp add: invalid_start_def MMU_def)
  have u: "ready_queue invalid_start = [0, 1]" "m (processes (the_mmu invalid_start) ! 0) = -2"
    by (simp_all add: invalid_start_def MMU_def)
  show ?thesis by (intro conjI c u a b e)
qed

section \<open>Scenario A\<close>

text \<open>
  Claim C8.  One process, three pages, two frames, a TLB of one entry, FIFO, reference
  sequence 0 1 2 0 1 (python/core): the run ends, and its trace is: faults on pages 0
  and 1, served from the free pool with frames 0 and 1; a fault on page 2, served by
  evicting page 0, the page that holds the smaller frame 0; a fourth fault on page 0,
  which was evicted; and a hit, no fault, on the fifth reference, page 1, still in
  frame 1.  Each fault is followed by the hit of the retried reference.  The random
  draws play no part.
\<close>

theorem scenario_A_trace:
  "trace (run_simulation draw 1 3 2 1 FIFO [[0, 1, 2, 0, 1]] 9) =
     Some [(PageFault, 0, -1), (PageFaultHandled, 0, 0), (TlbHit, 0, 0),
           (PageFault, 1, -1), (PageFaultHandled, 1, 1), (TlbHit, 1, 1),
           (PageFault, 2, -1), (PageFaultHandled, 2, 0), (TlbHit, 2, 0),
           (PageFault, 0, -1), (PageFaultHandled, 0, 0), (TlbHit, 0, 0),
           (PageHit, 1, 1), (ProcessComplete, -1, -1)]"
  by code_simp

section \<open>Releasing frames twice\<close>

lemma invalid_at_set_entry:
  assumes "set_entry pt p n' (e'\<lparr>valid := False\<rparr>) = Some pt'"
  shows "invalid_at pt' p n'" and "invalid_at pt p n \<Longrightarrow> invalid_at pt' p n"
proof -
  from set_entry_SomeD[OF assms] obtain i j where
    ij: "py_index pt p = Some i" "i < length pt" "py_index (pt ! i) n' = Some j" "j < length (pt ! i)"
      "pt' = pt[i := (pt ! i)[j := e'\<lparr>valid := False\<rparr>]]" by blast
  have pi: "py_index pt' p = Some i" using ij by (simp add: py_index_def)
  have row: "pt' ! i = (pt ! i)[j := e'\<lparr>valid := False\<rparr>]" using ij by simp
  show "invalid_at pt' p n'"
    unfolding invalid_at_def using ij pi row by (simp add: get_entry_def py_get_def)
  assume "invalid_at pt p n"
  then obtain e where e: "get_entry pt p n = Some e" "\<not> valid e"
    by (auto simp: invalid_at_def split: option.splits)
  from get_entry_SomeD[OF e(1)] ij obtain j2 where
    j2: "py_index (pt ! i) n = Some j2" "j2 < length (pt ! i)" "e = pt ! i ! j2" by auto
  show "invalid_at pt' p n"
    unfolding invalid_at_def using ij pi row j2 e(2)
    by (cases "j2 = j") (simp_all add: get_entry_def py_get_def)
qed

lemma free_loop_frame:
  "free_loop p ns st = Some st1 \<Longrightarrow> processes st1 = processes st \<and> tlb st1 = tlb st"
proof (induction ns arbitrary: st)
  case Nil
  then show ?case by simp
next
  case (Cons n ns)
  then show ?case
    by (fastforce split: option.splits if_splits)
qed

lemma free_loop_invalid:
  "free_loop p ns st = Some st1 \<Longrightarrow>
     (\<forall>n. invalid_at (page_table st) p n \<longrightarrow> invalid_at (page_table st1) p n) \<and>
     (\<forall>n \<in> set ns. invalid_at (page_table st1) p n)"
proof (induction ns arbitrary: st)
  case Nil
  then show ?case by simp
next
  case (Cons n ns)
  from Cons.prems obtain e where e: "get_entry (page_table st) p n = Some e"
    by (auto split: option.splits)
  show ?case
  proof (cases "valid e")
    case False
    with e Cons.prems have "free_loop p ns st = Some st1" by simp
    from Cons.IH[OF this] e False show ?thesis by (auto simp: invalid_at_def)
  next
    case True
    with e Cons.prems obtain pm' pt' where
      s: "set_entry (page_table st) p n (e\<lparr>valid := False\<rparr>) = Some pt'"
      and r: "free_loop p ns (st\<lparr>free_frames := deallocate (free_frames st) (frame e),
                               physical_memory := pm', page_table := pt'\<rparr>) = Some st1"
      by (auto split: option.splits)
    from Cons.IH[OF r] invalid_at_set_entry[OF s] show ?thesis by auto
  qed
qed

lemma free_loop_noop:
  "\<forall>n \<in> set ns. invalid_at (page_table st) p n \<Longrightarrow> free_loop p ns st = Some st"
  by (induction ns) (auto simp: invalid_at_def split: option.splits)

lemma tlb_invalidate_process_idem:
  "tlb_invalidate_process (tlb_invalidate_process es p) p = tlb_invalidate_process es p"
  by (induction es) (auto simp: tlb_invalidate_process_def)

text \<open>
  Claim C9.  \<open>free_process_frames\<close> is idempotent: when a call for a process has
  returned, a further call for the same process returns and leaves the whole MMU
  state as it is (free pool, physical-memory map, page tables, TLB and all the rest), so
  no frame is appended to the free pool a second time; the usage counter of the
  process is 0 after the first call and stays 0.
\<close>

theorem free_process_frames_idempotent:
  assumes "free_process_frames st p = Some st'"
  shows "free_process_frames st' p = Some st'
         \<and> map_option usecount (py_get (processes st') p) = Some 0"
proof -
  from assms obtain pr st1 ps' where
    pr: "py_get (processes st) p = Some pr"
    and fl: "free_loop p (py_range (m pr)) st = Some st1"
    and ps: "py_set (processes st1) p (pr\<lparr>usecount := 0\<rparr>) = Some ps'"
    and st': "st' = st1\<lparr>tlb := tlb_invalidate_process (tlb st1) p, processes := ps'\<rparr>"
    by (auto simp: free_process_frames_def split: Option.bind_splits)
  have g: "py_get (processes st') p = Some (pr\<lparr>usecount := 0\<rparr>)"
    using py_get_py_set[OF ps] st' by simp
  have inv: "\<forall>n \<in> set (py_range (m pr)). invalid_at (page_table st') p n"
    using free_loop_invalid[OF fl] st' by simp
  have l: "free_loop p (py_range (m pr)) st' = Some st'"
    by (rule free_loop_noop[OF inv])
  have s: "py_set (processes st') p (pr\<lparr>usecount := 0\<rparr>) = Some (processes st')"
    by (rule py_set_same[OF g])
  show ?thesis
    using g l s st' by (simp add: free_process_frames_def tlb_invalidate_process_idem)
qed

theorem free_process_frames_idempotent_witness:
  "free_process_frames one_resident 0 = Some one_freed
   \<and> free_process_frames one_freed 0 = Some one_freed
   \<and> free_frames one_freed = [1, 0]
   \<and> map_option usecount (py_get (processes one_freed) 0) = Some 0"
proof -
  have h: "free_process_frames one_resident 0 = Some one_freed"
    by code_simp
  from free_process_frames_idempotent[OF h] h show ?thesis
    by (simp add: one_freed_def)
qed

section \<open>The fallback of the victim scan\<close>

text \<open>
  Claim C10 asks that an eviction always finds a valid entry of the faulting process and
  that \<open>handle_page_fault\<close> always returns a frame in \<open>0 .. f-1\<close>.  \<open>configure\<close> accepts
  reference strings with negative page numbers; it derives the page count of a process
  from the largest reference only.  With two processes, three frames and the reference
  strings \<open>[-3]\<close> and \<open>[0]\<close> the page counts are -2 and 1, the total is -1, and the quota
  formula gives process 1 the quota 0.  Process 0 ends with an invalid reference.
  Process 1 faults on page 0 with three free frames; its usage 0 is not below its quota
  0, so the eviction path is taken although it holds no page: the scan ends with
  \<open>victim_page = -1\<close>, \<open>_evict_page\<close> returns the frame field -1 of the last entry of
  the row, and \<open>handle_page_fault\<close> returns -1, maps page 0 to frame -1 and writes the
  owner into the last cell of the physical-memory map.  The run ends with -1 in the
  free pool.
\<close>

theorem negative_reference_reaches_fallback:
  "do {
     s0 \<leftarrow> configure draw 2 1 3 1 LRU [[-3], [0]];
     s1 \<leftarrow> turn s0;
     (fr, ev, st) \<leftarrow> handle_page_request_basic (the_mmu s1) 1 0;
     (fr', st') \<leftarrow> handle_page_fault_basic st 1 0;
     Some (map allocount (processes (the_mmu s0)),
           ready_queue s1, ev, free_frames st, map usecount (processes st),
           resident_pages (page_table st ! 1) (m (processes st ! 1)),
           map_option fst (evict_page_basic st 1),
           fr', map_option (\<lambda>e. (valid e, frame e)) (get_entry (page_table st') 1 0),
           physical_memory st')
   } = Some ([3, 0], [1], PageFault, [2, 1, 0], [0, 0], [], Some (-1), -1, Some (True, -1),
             [-1, -1, 1])
   \<and> trace (run_simulation draw 2 1 3 1 LRU [[-3], [0]] 4) =
       Some [(InvalidReference, -3, -2), (ProcessComplete, -1, -1),
             (PageFault, 0, -1), (PageFaultHandled, 0, -1), (TlbHit, 0, -1),
             (ProcessComplete, -1, -1)]
   \<and> (case run_simulation draw 2 1 3 1 LRU [[-3], [0]] 4 of
         Finished s \<Rightarrow> free_frames (the_mmu s) = [2, 1, 0, -1] | _ \<Rightarrow> False)"
  by code_simp

end
